theory Spec2Isabelle
  imports Complex_Main "HOL-Library.Word" "HOL-Library.AList"
begin

section \<open>Numbers\<close>

text \<open>
  A JavaScript number is a double. Two kinds of code are told apart. In the functions of
  \<open>data.js\<close> that convert coordinates and in \<open>findTopoTime\<close>, whose claims are
  about the last digits of a result, every arithmetic operation is modelled as the exact
  operation on the reals followed by the rounding to the nearest double, \<open>toFloat64\<close>
  (ties to the even significand, 53-bit significand, exponents \<open>-1022\<close> to \<open>1023\<close>,
  gradual underflow). Everywhere else a number is modelled as a real and arithmetic is
  taken as exact. \<open>NaN\<close> and the infinities have no counterpart (where the source
  returns \<open>-Infinity\<close> on purpose, the result type says so), and overflow to an
  infinity is outside the model. \<open>Math.round\<close> rounds a half towards \<open>+\<infinity>\<close>, which
  is \<^const>\<open>round\<close>; \<open>Math.floor\<close> and \<open>Math.ceil\<close> are \<^const>\<open>floor\<close> and
  \<^const>\<open>ceiling\<close>.

  The store into a \<open>Float32Array\<close> is modelled too: the height array of a tile and the
  position buffer of a mesh are arrays of single-precision floats, and an assignment to an
  element converts the number to the nearest single-precision value, ties to the even
  significand. \<open>toFloat32\<close> is that conversion on the reals (24-bit significand,
  exponents \<open>-126\<close> to \<open>127\<close>, gradual underflow).
\<close>

definition round_half_even :: "real \<Rightarrow> int" where
  "round_half_even y =
     (let f = \<lfloor>y\<rfloor>; d = y - of_int f
      in if d < 1/2 then f else if 1/2 < d then f + 1 else if even f then f else f + 1)"

fun float32_exponent_from :: "nat \<Rightarrow> int \<Rightarrow> real \<Rightarrow> int" where
  "float32_exponent_from 0 e a = e"
| "float32_exponent_from (Suc n) e a =
     (if 2 powi e \<le> a then e else float32_exponent_from n (e - 1) a)"

definition float32_exponent :: "real \<Rightarrow> int" where
  "float32_exponent a = float32_exponent_from 253 127 a"

definition toFloat32 :: "real \<Rightarrow> real" where
  "toFloat32 v =
     (let q = 2 powi (float32_exponent \<bar>v\<bar> - 23)
      in of_int (round_half_even (v / q)) * q)"

fun float64_exponent_from :: "nat \<Rightarrow> int \<Rightarrow> real \<Rightarrow> int" where
  "float64_exponent_from 0 e a = e"
| "float64_exponent_from (Suc n) e a =
     (if 2 powi e \<le> a then e else float64_exponent_from n (e - 1) a)"

definition float64_exponent :: "real \<Rightarrow> int" where
  "float64_exponent a = float64_exponent_from 2045 1023 a"

definition toFloat64 :: "real \<Rightarrow> real" where
  "toFloat64 v =
     (let q = 2 powi (float64_exponent \<bar>v\<bar> - 52)
      in of_int (round_half_even (v / q)) * q)"

text \<open>The four arithmetic operators on doubles.\<close>

definition js_add :: "real \<Rightarrow> real \<Rightarrow> real" where
  "js_add x y = toFloat64 (x + y)"

definition js_sub :: "real \<Rightarrow> real \<Rightarrow> real" where
  "js_sub x y = toFloat64 (x - y)"

definition js_mul :: "real \<Rightarrow> real \<Rightarrow> real" where
  "js_mul x y = toFloat64 (x * y)"

definition js_div :: "real \<Rightarrow> real \<Rightarrow> real" where
  "js_div x y = toFloat64 (x / y)"

section \<open>data.js: tile coordinates and height decoding\<close>


record location =
  lat :: real
  lon :: real



text \<open>
  \<open>getTileData\<close> draws the height-map image on a canvas and reads it back as RGBA bytes,
  row by row, four bytes per pixel, so \<open>data\<close> has \<open>4 * width * height\<close> entries. The
  textures and the fetch are outside the model; the raster is the input.
\<close>

record imageData =
  image_width :: nat
  image_height :: nat
  data :: "8 word list"

record tileData =
  heights :: "real list"
  width :: nat
  height :: nat

definition decodeHeight :: "8 word \<Rightarrow> 8 word \<Rightarrow> 8 word \<Rightarrow> real" where
  "decodeHeight r g b =
     (let h = (real (unat r) * 256 + real (unat g) + real (unat b) / 256) - 32768
      in h * 0.005)"

definition getTileData :: "imageData \<Rightarrow> tileData" where
  "getTileData img =
     (let d = data img;
          heightArray =
            map (\<lambda>i. toFloat32 (decodeHeight (d ! (i * 4)) (d ! (i * 4 + 1)) (d ! (i * 4 + 2))))
              [0 ..< image_width img * image_height img]
      in \<lparr>heights = heightArray, width = image_width img, height = image_height img\<rparr>)"

definition zeroRaster :: "nat \<Rightarrow> nat \<Rightarrow> imageData" where
  "zeroRaster w h = \<lparr>image_width = w, image_height = h, data = replicate (4 * w * h) 0\<rparr>"

section \<open>peakylight.js: state\<close>

text \<open>
  The globals of \<open>peakylight.js\<close> that the occlusion engine reads or writes. A tile of the
  grid is named \<open>tile_i_j\<close> in the source; the model uses the pair \<open>(i, j)\<close> as the
  key. \<open>terrainHeightData\<close> and the cache's \<open>data\<close> are objects used as dictionaries
  and are association lists here. A \<open>Date\<close> is its time value, an integer number of
  milliseconds; an invalid date has no counterpart.

  Of a terrain mesh the model keeps the z components of its position buffer (what
  \<open>getZ\<close> and \<open>setZ\<close> access) and the \<open>userData\<close> of its geometry; textures,
  normals and the \<open>needsUpdate\<close> flags are left out. \<open>setupScene\<close> builds every
  mesh with \<open>createSkirtedPlaneGeometry(\<dots>, 255, 255, \<dots>)\<close>: 256 * 256 top vertices,
  row by row, followed by the skirt vertices.
\<close>

datatype Vector3 = Vector3 (vec_x: real) (vec_y: real) (vec_z: real)

record mesh =
  positionZ :: "real list"
  topVerticesCount :: nat
  edgeToSkirtMap :: "(nat \<times> nat) list"
  skirtDepth :: real

record topoDay =
  topoSunrise :: int
  topoSunset :: int
  day_sunrise :: int
  day_sunset :: int

record topoCache =
  cache_lat :: "real option"
  cache_lon :: "real option"
  cache_year :: "int option"
  cache_data :: "(int \<times> topoDay) list"

record state =
  currentLocation :: location
  selectedDate :: int
  mapZoom :: int
  terrainHeightData :: "((int \<times> int) \<times> tileData) list"
  terrainGrid :: "int \<times> int \<Rightarrow> mesh option"
  terrainGrid_position_x :: real
  terrainGrid_position_z :: real
  locationMarker_position :: Vector3
  topoTimesCache :: topoCache

text \<open>
  What the engine takes from outside: the ephemeris (SunCalc) and the calendar of the
  JavaScript runtime. \<open>Date_local y m d\<close> is \<open>new Date(y, m, d)\<close>.
\<close>

record sunPos =
  altitude :: real
  azimuth :: real

record sunTimes =
  sunrise :: int
  solarNoon :: int
  sunset :: int

record env =
  SunCalc_getPosition :: "int \<Rightarrow> real \<Rightarrow> real \<Rightarrow> sunPos"
  SunCalc_getTimes :: "int \<Rightarrow> real \<Rightarrow> real \<Rightarrow> sunTimes"
  Date_getFullYear :: "int \<Rightarrow> int"
  Date_local :: "int \<Rightarrow> int \<Rightarrow> int \<Rightarrow> int"
  Date_getDate :: "int \<Rightarrow> int"

definition TILE_BASE_ZOOM :: int where
  "TILE_BASE_ZOOM = 12"

definition TILE_BASE_SIZE :: real where
  "TILE_BASE_SIZE = 20"

definition getTileWorldSizeForZoom :: "int \<Rightarrow> real" where
  "getTileWorldSizeForZoom zoom = TILE_BASE_SIZE / 2 powi (zoom - TILE_BASE_ZOOM)"

definition getGridRadiusForZoom :: "int \<Rightarrow> int" where
  "getGridRadiusForZoom zoom =
     (if zoom = 12 then 2 else if zoom = 13 then 3 else if zoom = 14 then 4
      else if zoom = 15 then 5 else 2)"

section \<open>peakylight.js: height queries\<close>

text \<open>
  The result of a height query is a number or \<open>-Infinity\<close>. Reading a
  \<open>Float32Array\<close> past its end gives \<open>undefined\<close>, which is \<open>None\<close> in
  \<open>sample\<close>.
\<close>

datatype number = MinusInfinity | Finite real

definition sample :: "real list \<Rightarrow> int \<Rightarrow> real option" where
  "sample hs k = (if 0 \<le> k \<and> nat k < length hs then Some (hs ! nat k) else None)"

definition getTerrainHeightAt :: "state \<Rightarrow> real \<Rightarrow> real \<Rightarrow> number" where
  "getTerrainHeightAt s worldX worldZ =
     (let gridLocalX = worldX - terrainGrid_position_x s;
          gridLocalZ = worldZ - terrainGrid_position_z s;
          tileWorldSize = getTileWorldSizeForZoom (mapZoom s);
          gridRadius = getGridRadiusForZoom (mapZoom s);
          tile_j = round (gridLocalX / tileWorldSize);
          tile_i = round (gridLocalZ / tileWorldSize)
      in if tile_i < - gridRadius \<or> tile_i > gridRadius \<or> tile_j < - gridRadius \<or> tile_j > gridRadius
         then MinusInfinity
         else case map_of (terrainHeightData s) (tile_i, tile_j) of
           None \<Rightarrow> Finite 0
         | Some tileData \<Rightarrow>
            (let tileLocalX = gridLocalX - of_int tile_j * tileWorldSize;
                 tileLocalZ = gridLocalZ - of_int tile_i * tileWorldSize;
                 gridX = (tileLocalX + tileWorldSize / 2) / tileWorldSize * (real (width tileData) - 1);
                 gridZ = (tileLocalZ + tileWorldSize / 2) / tileWorldSize * (real (height tileData) - 1);
                 x1 = \<lfloor>gridX\<rfloor>;
                 z1 = \<lfloor>gridZ\<rfloor>;
                 x2 = \<lceil>gridX\<rceil>;
                 z2 = \<lceil>gridZ\<rceil>
             in if x1 < 0 \<or> x2 \<ge> int (width tileData) \<or> z1 < 0 \<or> z2 \<ge> int (height tileData)
                then Finite 0
                else case (sample (heights tileData) (z1 * int (width tileData) + x1),
                           sample (heights tileData) (z2 * int (width tileData) + x1),
                           sample (heights tileData) (z1 * int (width tileData) + x2),
                           sample (heights tileData) (z2 * int (width tileData) + x2)) of
                  (Some h11, Some h12, Some h21, Some h22) \<Rightarrow>
                    (let tx = gridX - of_int x1;
                         tz = gridZ - of_int z1;
                         h_z1 = h11 * (1 - tz) + h12 * tz;
                         h_z2 = h21 * (1 - tz) + h22 * tz
                     in Finite (h_z1 * (1 - tx) + h_z2 * tx))
                | _ \<Rightarrow> Finite 0))"

section \<open>peakylight.js: sun position and occlusion test\<close>

text \<open>
  The methods of \<open>THREE.Vector3\<close> that the source calls, on values: every call in
  \<open>isLocationSunlit\<close> that changes a vector is made on a fresh \<open>clone()\<close> or on a
  vector built in the call. \<open>normalize\<close> divides by the length, or by 1 when the
  length is 0.
\<close>

definition vec_sub :: "Vector3 \<Rightarrow> Vector3 \<Rightarrow> Vector3" where
  "vec_sub a b = Vector3 (vec_x a - vec_x b) (vec_y a - vec_y b) (vec_z a - vec_z b)"

definition vec_add :: "Vector3 \<Rightarrow> Vector3 \<Rightarrow> Vector3" where
  "vec_add a b = Vector3 (vec_x a + vec_x b) (vec_y a + vec_y b) (vec_z a + vec_z b)"

definition multiplyScalar :: "Vector3 \<Rightarrow> real \<Rightarrow> Vector3" where
  "multiplyScalar a k = Vector3 (vec_x a * k) (vec_y a * k) (vec_z a * k)"

definition vec_length :: "Vector3 \<Rightarrow> real" where
  "vec_length a = sqrt (vec_x a * vec_x a + vec_y a * vec_y a + vec_z a * vec_z a)"

definition vec_normalize :: "Vector3 \<Rightarrow> Vector3" where
  "vec_normalize a = multiplyScalar a (1 / (if vec_length a = 0 then 1 else vec_length a))"

definition lerp :: "Vector3 \<Rightarrow> Vector3 \<Rightarrow> real \<Rightarrow> Vector3" where
  "lerp a v alpha =
     Vector3 (vec_x a + (vec_x v - vec_x a) * alpha)
             (vec_y a + (vec_y v - vec_y a) * alpha)
             (vec_z a + (vec_z v - vec_z a) * alpha)"

definition getSunPosition :: "env \<Rightarrow> state \<Rightarrow> int \<Rightarrow> real \<Rightarrow> Vector3" where
  "getSunPosition e s date radius =
     (let sunPos = SunCalc_getPosition e date (lat (currentLocation s)) (lon (currentLocation s));
          sunY = radius * sin (altitude sunPos);
          sunR = radius * cos (altitude sunPos);
          sunX = sunR * sin (azimuth sunPos + pi);
          sunZ = sunR * cos (azimuth sunPos + pi)
      in Vector3 sunX sunY sunZ)"

record sunlit =
  isLit :: bool
  intersectionPoint :: "Vector3 option"

text \<open>
  The inner loop \<open>for (let j = 0.1; j <= 1.0; j += 0.2)\<close>: \<open>None\<close> when no probe
  is below the terrain, and the outer loop goes on.
\<close>

function fineProbe :: "state \<Rightarrow> Vector3 \<Rightarrow> Vector3 \<Rightarrow> real \<Rightarrow> sunlit option" where
  "fineProbe s prevPos currentPos j =
     (if j \<le> 1 then
        (let finePos = lerp prevPos currentPos j
         in case getTerrainHeightAt s (vec_x finePos) (vec_z finePos) of
              Finite h \<Rightarrow>
                if vec_y finePos < h
                then Some \<lparr>isLit = False,
                       intersectionPoint = Some (Vector3 (vec_x finePos) h (vec_z finePos))\<rparr>
                else fineProbe s prevPos currentPos (j + 0.2)
            | MinusInfinity \<Rightarrow> fineProbe s prevPos currentPos (j + 0.2))
      else None)"
  by pat_completeness auto
termination
  by (relation "measure (\<lambda>(s, prevPos, currentPos, j). nat \<lceil>(1 - j) * 5 + 1\<rceil>)")
     (auto simp: algebra_simps, linarith+)

declare fineProbe.simps [simp del]

text \<open>The outer loop \<open>for (let i = 1; i < numSteps; i++)\<close>, with \<open>stepSize\<close> 2.\<close>

function rayMarch :: "state \<Rightarrow> Vector3 \<Rightarrow> Vector3 \<Rightarrow> int \<Rightarrow> int \<Rightarrow> sunlit" where
  "rayMarch s sunPosition rayDirection numSteps i =
     (if i < numSteps then
        (let stepSize = 2;
             currentPos = vec_add sunPosition (multiplyScalar rayDirection (of_int i * stepSize));
             blocked =
               (case getTerrainHeightAt s (vec_x currentPos) (vec_z currentPos) of
                  Finite terrainHeight \<Rightarrow> vec_y currentPos < terrainHeight
                | MinusInfinity \<Rightarrow> False)
         in if blocked then
              (let prevPos = vec_add sunPosition (multiplyScalar rayDirection (of_int (i - 1) * stepSize))
               in case fineProbe s prevPos currentPos 0.1 of
                    Some result \<Rightarrow> result
                  | None \<Rightarrow> rayMarch s sunPosition rayDirection numSteps (i + 1))
            else rayMarch s sunPosition rayDirection numSteps (i + 1))
      else \<lparr>isLit = True, intersectionPoint = None\<rparr>)"
  by pat_completeness auto
termination
  by (relation "measure (\<lambda>(s, sunPosition, rayDirection, numSteps, i). nat (numSteps - i))") auto

declare rayMarch.simps [simp del]

definition isLocationSunlit :: "env \<Rightarrow> state \<Rightarrow> int \<Rightarrow> sunlit" where
  "isLocationSunlit e s date =
     (if terrainHeightData s = [] then \<lparr>isLit = True, intersectionPoint = None\<rparr>
      else
        (let sunPosition = getSunPosition e s date 10;
             targetPosition = locationMarker_position s
         in if vec_y sunPosition < vec_y targetPosition - 5 \<and>
               altitude (SunCalc_getPosition e date (lat (currentLocation s)) (lon (currentLocation s))) < 0
            then \<lparr>isLit = False, intersectionPoint = None\<rparr>
            else
              (let rayLength = vec_length (vec_sub targetPosition sunPosition);
                   rayDirection = vec_normalize (vec_sub targetPosition sunPosition);
                   stepSize = 2;
                   numSteps = \<lfloor>rayLength / stepSize\<rfloor>
               in rayMarch s sunPosition rayDirection numSteps 1)))"

section \<open>peakylight.js: the occlusion test on a store of vectors\<close>

text \<open>
  A \<open>THREE.Vector3\<close> is an object, and \<open>sub\<close>, \<open>add\<close>, \<open>multiplyScalar\<close>,
  \<open>normalize\<close> and \<open>lerp\<close> change the vector they are called on.
  \<open>isLocationSunlit\<close> holds \<open>locationMarker.position\<close> itself in
  \<open>targetPosition\<close>, not a copy. To see what a call does to the vectors that exist
  before it, here is the function again over a store: a list of vectors, an object being
  its index, \<open>new\<close> and \<open>clone()\<close> adding one at the end. \<open>markerAt\<close> is the
  address of \<open>locationMarker.position\<close>. The result has the address of the
  intersection point.
\<close>

type_synonym store = "Vector3 list"

definition V3_new :: "Vector3 \<Rightarrow> store \<Rightarrow> nat \<times> store" where
  "V3_new v h = (length h, h @ [v])"

definition V3_clone :: "nat \<Rightarrow> store \<Rightarrow> nat \<times> store" where
  "V3_clone a h = (length h, h @ [h ! a])"

definition V3_sub :: "nat \<Rightarrow> nat \<Rightarrow> store \<Rightarrow> store" where
  "V3_sub a b h = h[a := vec_sub (h ! a) (h ! b)]"

definition V3_add :: "nat \<Rightarrow> nat \<Rightarrow> store \<Rightarrow> store" where
  "V3_add a b h = h[a := vec_add (h ! a) (h ! b)]"

definition V3_multiplyScalar :: "nat \<Rightarrow> real \<Rightarrow> store \<Rightarrow> store" where
  "V3_multiplyScalar a k h = h[a := multiplyScalar (h ! a) k]"

definition V3_normalize :: "nat \<Rightarrow> store \<Rightarrow> store" where
  "V3_normalize a h = h[a := vec_normalize (h ! a)]"

definition V3_lerp :: "nat \<Rightarrow> nat \<Rightarrow> real \<Rightarrow> store \<Rightarrow> store" where
  "V3_lerp a b alpha h = h[a := lerp (h ! a) (h ! b) alpha]"

definition V3_setY :: "nat \<Rightarrow> real \<Rightarrow> store \<Rightarrow> store" where
  "V3_setY a y h = h[a := Vector3 (vec_x (h ! a)) y (vec_z (h ! a))]"

record sunlitRef =
  isLitRef :: bool
  intersectionPointRef :: "nat option"

function fineProbe_store ::
  "state \<Rightarrow> nat \<Rightarrow> nat \<Rightarrow> real \<Rightarrow> store \<Rightarrow> sunlitRef option \<times> store" where
  "fineProbe_store s prevPos currentPos j h =
     (if j \<le> 1 then
        (let (finePos, h1) = V3_clone prevPos h;
             h2 = V3_lerp finePos currentPos j h1
         in case getTerrainHeightAt s (vec_x (h2 ! finePos)) (vec_z (h2 ! finePos)) of
              Finite terrainHeight \<Rightarrow>
                if vec_y (h2 ! finePos) < terrainHeight
                then (Some \<lparr>isLitRef = False, intersectionPointRef = Some finePos\<rparr>,
                      V3_setY finePos terrainHeight h2)
                else fineProbe_store s prevPos currentPos (j + 0.2) h2
            | MinusInfinity \<Rightarrow> fineProbe_store s prevPos currentPos (j + 0.2) h2)
      else (None, h))"
  by pat_completeness auto
termination
  by (relation "measure (\<lambda>(s, prevPos, currentPos, j, h). nat \<lceil>(1 - j) * 5 + 1\<rceil>)")
     (auto simp: algebra_simps, linarith+)

declare fineProbe_store.simps [simp del]

function rayMarch_store ::
  "state \<Rightarrow> nat \<Rightarrow> nat \<Rightarrow> int \<Rightarrow> int \<Rightarrow> store \<Rightarrow> sunlitRef \<times> store" where
  "rayMarch_store s sunPosition rayDirection numSteps i h =
     (if i < numSteps then
        (let stepSize = 2;
             (c1, h1) = V3_clone sunPosition h;
             (c2, h2) = V3_clone rayDirection h1;
             h3 = V3_multiplyScalar c2 (of_int i * stepSize) h2;
             h4 = V3_add c1 c2 h3;
             currentPos = c1;
             blocked =
               (case getTerrainHeightAt s (vec_x (h4 ! currentPos)) (vec_z (h4 ! currentPos)) of
                  Finite terrainHeight \<Rightarrow> vec_y (h4 ! currentPos) < terrainHeight
                | MinusInfinity \<Rightarrow> False)
         in if blocked then
              (let (p1, h5) = V3_clone sunPosition h4;
                   (p2, h6) = V3_clone rayDirection h5;
                   h7 = V3_multiplyScalar p2 (of_int (i - 1) * stepSize) h6;
                   h8 = V3_add p1 p2 h7;
                   prevPos = p1
               in case fineProbe_store s prevPos currentPos 0.1 h8 of
                    (Some result, h9) \<Rightarrow> (result, h9)
                  | (None, h9) \<Rightarrow> rayMarch_store s sunPosition rayDirection numSteps (i + 1) h9)
            else rayMarch_store s sunPosition rayDirection numSteps (i + 1) h4)
      else (\<lparr>isLitRef = True, intersectionPointRef = None\<rparr>, h))"
  by pat_completeness auto
termination
  by (relation "measure (\<lambda>(s, sunPosition, rayDirection, numSteps, i, h). nat (numSteps - i))") auto

declare rayMarch_store.simps [simp del]

definition isLocationSunlit_store ::
  "env \<Rightarrow> state \<Rightarrow> nat \<Rightarrow> int \<Rightarrow> store \<Rightarrow> sunlitRef \<times> store" where
  "isLocationSunlit_store e s markerAt date h =
     (if terrainHeightData s = [] then (\<lparr>isLitRef = True, intersectionPointRef = None\<rparr>, h)
      else
        (let (sunPosition, h1) = V3_new (getSunPosition e s date 10) h;
             targetPosition = markerAt
         in if vec_y (h1 ! sunPosition) < vec_y (h1 ! targetPosition) - 5 \<and>
               altitude (SunCalc_getPosition e date (lat (currentLocation s)) (lon (currentLocation s))) < 0
            then (\<lparr>isLitRef = False, intersectionPointRef = None\<rparr>, h1)
            else
              (let (rayDirection, h2) = V3_clone targetPosition h1;
                   h3 = V3_sub rayDirection sunPosition h2;
                   rayLength = vec_length (h3 ! rayDirection);
                   h4 = V3_normalize rayDirection h3;
                   stepSize = 2;
                   numSteps = \<lfloor>rayLength / stepSize\<rfloor>
               in rayMarch_store s sunPosition rayDirection numSteps 1 h4)))"

text \<open>The result of the store version, with the intersection point read from the store.\<close>

definition resultOf :: "sunlitRef \<times> store \<Rightarrow> sunlit" where
  "resultOf rh =
     \<lparr>isLit = isLitRef (fst rh),
      intersectionPoint = map_option (\<lambda>a. snd rh ! a) (intersectionPointRef (fst rh))\<rparr>"

section \<open>peakylight.js: topographic sunrise and sunset\<close>

text \<open>
  \<open>new Date(t)\<close> drops the fraction of a time value (towards zero). \<open>findTopoTime\<close>
  takes the occlusion test it calls as its first argument, and returns, with the date of
  the source, the dates at which it called that test, in order. \<open>low\<close>, \<open>high\<close> and
  \<open>mid\<close> are doubles: \<open>low + (high - low) / 2\<close> rounds three times.
\<close>

definition new_Date :: "real \<Rightarrow> int" where
  "new_Date t = (if 0 \<le> t then \<lfloor>t\<rfloor> else \<lceil>t\<rceil>)"

function bisect ::
  "(int \<Rightarrow> sunlit) \<Rightarrow> bool \<Rightarrow> nat \<Rightarrow> real \<Rightarrow> real \<Rightarrow> real \<Rightarrow> real \<times> int list" where
  "bisect sunlitAt findFirstLight i low high bestTime =
     (if i < 15 then
        (let mid = js_add low (js_div (js_sub high low) 2);
             date = new_Date mid;
             lit = isLit (sunlitAt date);
             (low', high', bestTime') =
               (if findFirstLight
                then (if lit then (low, mid, mid) else (mid, high, bestTime))
                else (if lit then (mid, high, mid) else (low, mid, bestTime)));
             (result, queried) = bisect sunlitAt findFirstLight (i + 1) low' high' bestTime'
         in (result, date # queried))
      else (bestTime, []))"
  by pat_completeness auto
termination
  by (relation "measure (\<lambda>(sunlitAt, findFirstLight, i, low, high, bestTime). 15 - i)") auto

declare bisect.simps [simp del]

definition findTopoTime :: "(int \<Rightarrow> sunlit) \<Rightarrow> int \<Rightarrow> int \<Rightarrow> bool \<Rightarrow> int \<times> int list" where
  "findTopoTime sunlitAt startTime endTime findFirstLight =
     (let low = real_of_int startTime;
          high = real_of_int endTime;
          bestTime = (if findFirstLight then high else low);
          (result, queried) = bisect sunlitAt findFirstLight 0 low high bestTime
      in (new_Date result, queried))"

section \<open>peakylight.js: the yearly cache\<close>

text \<open>
  \<open>cacheYearlyTopoTimes\<close> returns the new state and the calls of \<open>findTopoTime\<close> it
  made (start, end, \<open>findFirstLight\<close>), in order. The waits of the source between the
  days are not modelled: the call runs to its end.
\<close>

function cacheDays ::
  "env \<Rightarrow> int \<Rightarrow> int \<Rightarrow> int \<Rightarrow> state \<times> (int \<times> int \<times> bool) list
     \<Rightarrow> state \<times> (int \<times> int \<times> bool) list" where
  "cacheDays e year daysInYear day (s, calls) =
     (if day \<le> daysInYear then
        (let date = Date_local e year 0 day;
             times = SunCalc_getTimes e date (lat (currentLocation s)) (lon (currentLocation s));
             topoSunrise = fst (findTopoTime (isLocationSunlit e s) (sunrise times) (solarNoon times) True);
             topoSunset = fst (findTopoTime (isLocationSunlit e s) (solarNoon times) (sunset times) False);
             entry = \<lparr>topoSunrise = topoSunrise, topoSunset = topoSunset,
                      day_sunrise = sunrise times, day_sunset = sunset times\<rparr>;
             cache = topoTimesCache s;
             s' = s\<lparr>topoTimesCache := cache\<lparr>cache_data := AList.update day entry (cache_data cache)\<rparr>\<rparr>
         in cacheDays e year daysInYear (day + 1)
              (s', calls @ [(sunrise times, solarNoon times, True),
                            (solarNoon times, sunset times, False)]))
      else (s, calls))"
  by pat_completeness auto
termination
  by (relation "measure (\<lambda>(e, year, daysInYear, day, sc). nat (daysInYear + 1 - day))") auto

declare cacheDays.simps [simp del]

definition cacheYearlyTopoTimes :: "env \<Rightarrow> state \<Rightarrow> state \<times> (int \<times> int \<times> bool) list" where
  "cacheYearlyTopoTimes e s =
     (let year = Date_getFullYear e (selectedDate s);
          cache = topoTimesCache s
      in if cache_lat cache = Some (lat (currentLocation s)) \<and>
            cache_lon cache = Some (lon (currentLocation s)) \<and>
            cache_year cache = Some year \<and>
            cache_data cache \<noteq> []
         then (s, [])
         else
           (let s1 = s\<lparr>topoTimesCache :=
                        \<lparr>cache_lat = Some (lat (currentLocation s)),
                         cache_lon = Some (lon (currentLocation s)),
                         cache_year = Some year,
                         cache_data = []\<rparr>\<rparr>;
                isLeap = (Date_getDate e (Date_local e year 1 29) = 29);
                daysInYear = (if isLeap then 366 else 365)
            in cacheDays e year daysInYear 1 (s1, [])))"

section \<open>peakylight.js: installing and stitching tiles\<close>

text \<open>
  \<open>setZ\<close> stores into the \<open>Float32Array\<close> of the position attribute; a store past
  the end of a typed array does nothing, as \<open>list_update\<close>. The reads of the source are
  in range for the meshes \<open>setupScene\<close> builds.
\<close>

definition gridSize :: nat where
  "gridSize = 256"

definition getZ :: "real list \<Rightarrow> nat \<Rightarrow> real" where
  "getZ vertices index = vertices ! index"

definition setZ :: "real list \<Rightarrow> nat \<Rightarrow> real \<Rightarrow> real list" where
  "setZ vertices index z = vertices[index := toFloat32 z]"

definition updateTile :: "int \<times> int \<Rightarrow> tileData \<Rightarrow> state \<Rightarrow> state" where
  "updateTile name tileData s =
     (case terrainGrid s name of
        None \<Rightarrow> s
      | Some terrainMesh \<Rightarrow>
          (let v1 = fold (\<lambda>i vertices. setZ vertices i (heights tileData ! i))
                      [0 ..< topVerticesCount terrainMesh] (positionZ terrainMesh);
               v2 = fold (\<lambda>(edgeIndex, skirtRelativeIndex) vertices.
                            setZ vertices (topVerticesCount terrainMesh + skirtRelativeIndex)
                              (getZ vertices edgeIndex - skirtDepth terrainMesh))
                      (edgeToSkirtMap terrainMesh) v1
           in s\<lparr>terrainGrid := (terrainGrid s)(name \<mapsto> terrainMesh\<lparr>positionZ := v2\<rparr>),
                terrainHeightData := AList.update name tileData (terrainHeightData s)\<rparr>))"

definition updateSkirt :: "mesh \<Rightarrow> nat \<Rightarrow> real \<Rightarrow> real list \<Rightarrow> real list" where
  "updateSkirt tile thisEdgeIndex avgHeight vertices =
     (case map_of (edgeToSkirtMap tile) thisEdgeIndex of
        Some skirtIndex \<Rightarrow>
          setZ vertices (topVerticesCount tile + skirtIndex) (avgHeight - skirtDepth tile)
      | None \<Rightarrow> vertices)"

definition syncRightStep :: "mesh \<Rightarrow> nat \<Rightarrow> real list \<times> real list \<Rightarrow> real list \<times> real list" where
  "syncRightStep tile iy = (\<lambda>(vertices, rightVertices).
     let thisEdgeIndex = iy * gridSize + (gridSize - 1);
         rightEdgeIndex = iy * gridSize;
         thisHeight = getZ vertices thisEdgeIndex;
         rightHeight = getZ rightVertices rightEdgeIndex;
         avgHeight = (thisHeight + rightHeight) / 2
     in (updateSkirt tile thisEdgeIndex avgHeight (setZ vertices thisEdgeIndex avgHeight),
         setZ rightVertices rightEdgeIndex avgHeight))"

definition syncBottomStep :: "mesh \<Rightarrow> nat \<Rightarrow> real list \<times> real list \<Rightarrow> real list \<times> real list" where
  "syncBottomStep tile ix = (\<lambda>(vertices, bottomVertices).
     let thisEdgeIndex = (gridSize - 1) * gridSize + ix;
         bottomEdgeIndex = ix;
         thisHeight = getZ vertices thisEdgeIndex;
         bottomHeight = getZ bottomVertices bottomEdgeIndex;
         avgHeight = (thisHeight + bottomHeight) / 2
     in (updateSkirt tile thisEdgeIndex avgHeight (setZ vertices thisEdgeIndex avgHeight),
         setZ bottomVertices bottomEdgeIndex avgHeight))"

type_synonym grid = "int \<times> int \<Rightarrow> mesh option"

definition syncRight :: "int \<Rightarrow> int \<Rightarrow> int \<Rightarrow> grid \<Rightarrow> grid" where
  "syncRight gridRadius i j g =
     (if j < gridRadius then
        (case (g (i, j), g (i, j + 1)) of
           (Some tile, Some rightTile) \<Rightarrow>
             (let (vertices, rightVertices) =
                    fold (syncRightStep tile) [0 ..< gridSize] (positionZ tile, positionZ rightTile)
              in g((i, j) \<mapsto> tile\<lparr>positionZ := vertices\<rparr>,
                   (i, j + 1) \<mapsto> rightTile\<lparr>positionZ := rightVertices\<rparr>))
         | _ \<Rightarrow> g)
      else g)"

definition syncBottom :: "int \<Rightarrow> int \<Rightarrow> int \<Rightarrow> grid \<Rightarrow> grid" where
  "syncBottom gridRadius i j g =
     (if i < gridRadius then
        (case (g (i, j), g (i + 1, j)) of
           (Some tile, Some bottomTile) \<Rightarrow>
             (let (vertices, bottomVertices) =
                    fold (syncBottomStep tile) [0 ..< gridSize] (positionZ tile, positionZ bottomTile)
              in g((i, j) \<mapsto> tile\<lparr>positionZ := vertices\<rparr>,
                   (i + 1, j) \<mapsto> bottomTile\<lparr>positionZ := bottomVertices\<rparr>))
         | _ \<Rightarrow> g)
      else g)"

definition syncTile :: "int \<Rightarrow> int \<Rightarrow> int \<Rightarrow> grid \<Rightarrow> grid" where
  "syncTile gridRadius i j g =
     (case g (i, j) of
        None \<Rightarrow> g
      | Some tile \<Rightarrow> syncBottom gridRadius i j (syncRight gridRadius i j g))"

definition synchronizeTileBoundaries :: "int \<Rightarrow> state \<Rightarrow> state" where
  "synchronizeTileBoundaries gridRadius s =
     s\<lparr>terrainGrid :=
         fold (\<lambda>i g. fold (\<lambda>j g. syncTile gridRadius i j g) [- gridRadius .. gridRadius] g)
           [- gridRadius .. gridRadius] (terrainGrid s)\<rparr>"

section \<open>peakylight.js: the scene at start\<close>

text \<open>
  \<open>createSkirtedPlaneGeometry\<close>, as far as the model of a mesh goes: the top vertices
  have z = 0, each skirt vertex has z = \<open>-skirtDepth\<close>, and \<open>edgeToSkirtMap\<close> maps
  an edge vertex to the index of its skirt vertex, counted from \<open>topVerticesCount\<close>.
  The map of the source keeps the order of insertion; \<open>getOrCreateSkirtVertex\<close> adds a
  skirt vertex for an edge vertex that has none.
\<close>

definition getOrCreateSkirtVertex :: "nat \<Rightarrow> (nat \<times> nat) list \<Rightarrow> nat \<Rightarrow> (nat \<times> nat) list" where
  "getOrCreateSkirtVertex topCount edgeToSkirtIndexMap originalIndex =
     (case map_of edgeToSkirtIndexMap originalIndex of
        Some k \<Rightarrow> edgeToSkirtIndexMap
      | None \<Rightarrow> edgeToSkirtIndexMap @ [(originalIndex, topCount + length edgeToSkirtIndexMap)])"

definition addSkirtQuad :: "nat \<Rightarrow> nat \<Rightarrow> nat \<Rightarrow> (nat \<times> nat) list \<Rightarrow> (nat \<times> nat) list" where
  "addSkirtQuad topCount v1 v2 m =
     getOrCreateSkirtVertex topCount (getOrCreateSkirtVertex topCount m v1) v2"

definition createSkirtedPlaneGeometry :: "nat \<Rightarrow> nat \<Rightarrow> real \<Rightarrow> mesh" where
  "createSkirtedPlaneGeometry widthSegments heightSegments depth =
     (let gridX = widthSegments;
          gridY = heightSegments;
          gridX1 = gridX + 1;
          gridY1 = gridY + 1;
          topCount = gridX1 * gridY1;
          m1 = fold (\<lambda>ix. addSkirtQuad topCount ix (ix + 1)) [0 ..< gridX] [];
          m2 = fold (\<lambda>ix. addSkirtQuad topCount (ix + 1 + gridX1 * gridY) (ix + gridX1 * gridY))
                 [0 ..< gridX] m1;
          m3 = fold (\<lambda>iy. addSkirtQuad topCount (gridX1 * (iy + 1)) (gridX1 * iy)) [0 ..< gridY] m2;
          m4 = fold (\<lambda>iy. addSkirtQuad topCount (gridX + gridX1 * iy) (gridX + gridX1 * (iy + 1)))
                 [0 ..< gridY] m3
      in \<lparr>positionZ = replicate topCount (toFloat32 0) @ replicate (length m4) (toFloat32 (- depth)),
          topVerticesCount = topCount,
          edgeToSkirtMap = map (\<lambda>(edgeIndex, skirtAbsoluteIndex). (edgeIndex, skirtAbsoluteIndex - topCount)) m4,
          skirtDepth = depth\<rparr>)"

definition MAX_GRID_RADIUS :: int where
  "MAX_GRID_RADIUS = 5"

definition setupScene :: grid where
  "setupScene = (\<lambda>(i, j).
     if - MAX_GRID_RADIUS \<le> i \<and> i \<le> MAX_GRID_RADIUS \<and> - MAX_GRID_RADIUS \<le> j \<and> j \<le> MAX_GRID_RADIUS
     then Some (createSkirtedPlaneGeometry 255 255 1) else None)"

text \<open>The globals as the script sets them at load, at the time \<open>now\<close>.\<close>

definition initialState :: "int \<Rightarrow> state" where
  "initialState now =
     \<lparr>currentLocation = \<lparr>lat = -37.755, lon = 145.697\<rparr>,
      selectedDate = now,
      mapZoom = 13,
      terrainHeightData = [],
      terrainGrid = setupScene,
      terrainGrid_position_x = 0,
      terrainGrid_position_z = 0,
      locationMarker_position = Vector3 0 0 0,
      topoTimesCache = \<lparr>cache_lat = None, cache_lon = None, cache_year = None, cache_data = []\<rparr>\<rparr>"

section \<open>Names for the parts of a height query\<close>

text \<open>
  The tile offset \<open>(tile_i, tile_j)\<close> that \<open>getTerrainHeightAt\<close> computes for a world
  position, its test for a position outside the grid, and the fractional sample
  coordinates \<open>(gridX, gridZ)\<close> inside a tile.
\<close>

definition tileOffset :: "state \<Rightarrow> real \<Rightarrow> real \<Rightarrow> int \<times> int" where
  "tileOffset s worldX worldZ =
     (let tileWorldSize = getTileWorldSizeForZoom (mapZoom s)
      in (round ((worldZ - terrainGrid_position_z s) / tileWorldSize),
          round ((worldX - terrainGrid_position_x s) / tileWorldSize)))"

definition outsideGrid :: "state \<Rightarrow> int \<times> int \<Rightarrow> bool" where
  "outsideGrid s = (\<lambda>(tile_i, tile_j).
     let gridRadius = getGridRadiusForZoom (mapZoom s)
     in tile_i < - gridRadius \<or> tile_i > gridRadius \<or> tile_j < - gridRadius \<or> tile_j > gridRadius)"

definition sampleCoords :: "state \<Rightarrow> tileData \<Rightarrow> real \<Rightarrow> real \<Rightarrow> real \<times> real" where
  "sampleCoords s tileData worldX worldZ =
     (let tileWorldSize = getTileWorldSizeForZoom (mapZoom s);
          (tile_i, tile_j) = tileOffset s worldX worldZ;
          tileLocalX = worldX - terrainGrid_position_x s - of_int tile_j * tileWorldSize;
          tileLocalZ = worldZ - terrainGrid_position_z s - of_int tile_i * tileWorldSize
      in ((tileLocalX + tileWorldSize / 2) / tileWorldSize * (real (width tileData) - 1),
          (tileLocalZ + tileWorldSize / 2) / tileWorldSize * (real (height tileData) - 1)))"

text \<open>
  The four indices at which \<open>getTerrainHeightAt\<close> reads the height array, in the order
  \<open>h11\<close>, \<open>h12\<close>, \<open>h21\<close>, \<open>h22\<close>; its two tests that end in the result 0, on the
  sample coordinates and on the four samples; and the value that it returns otherwise.
\<close>

definition sampleIndices :: "tileData \<Rightarrow> real \<Rightarrow> real \<Rightarrow> int list" where
  "sampleIndices tileData gridX gridZ =
     [\<lfloor>gridZ\<rfloor> * int (width tileData) + \<lfloor>gridX\<rfloor>,
      \<lceil>gridZ\<rceil> * int (width tileData) + \<lfloor>gridX\<rfloor>,
      \<lfloor>gridZ\<rfloor> * int (width tileData) + \<lceil>gridX\<rceil>,
      \<lceil>gridZ\<rceil> * int (width tileData) + \<lceil>gridX\<rceil>]"

definition indexFallback :: "tileData \<Rightarrow> real \<Rightarrow> real \<Rightarrow> bool" where
  "indexFallback tileData gridX gridZ \<longleftrightarrow>
     \<lfloor>gridX\<rfloor> < 0 \<or> \<lceil>gridX\<rceil> \<ge> int (width tileData) \<or>
     \<lfloor>gridZ\<rfloor> < 0 \<or> \<lceil>gridZ\<rceil> \<ge> int (height tileData) \<or>
     (\<exists>k \<in> set (sampleIndices tileData gridX gridZ). sample (heights tileData) k = None)"

definition interpolate :: "tileData \<Rightarrow> real \<Rightarrow> real \<Rightarrow> real" where
  "interpolate tileData gridX gridZ =
     (let h11 = heights tileData ! nat (\<lfloor>gridZ\<rfloor> * int (width tileData) + \<lfloor>gridX\<rfloor>);
          h12 = heights tileData ! nat (\<lceil>gridZ\<rceil> * int (width tileData) + \<lfloor>gridX\<rfloor>);
          h21 = heights tileData ! nat (\<lfloor>gridZ\<rfloor> * int (width tileData) + \<lceil>gridX\<rceil>);
          h22 = heights tileData ! nat (\<lceil>gridZ\<rceil> * int (width tileData) + \<lceil>gridX\<rceil>);
          tx = gridX - of_int \<lfloor>gridX\<rfloor>;
          tz = gridZ - of_int \<lfloor>gridZ\<rfloor>;
          h_z1 = h11 * (1 - tz) + h12 * tz;
          h_z2 = h21 * (1 - tz) + h22 * tz
      in h_z1 * (1 - tx) + h_z2 * tx)"

section \<open>Names used in the statements\<close>

text \<open>
  \<open>daysInYear\<close> is the local variable of that name in \<open>cacheYearlyTopoTimes\<close>, and
  \<open>dayEntry\<close> the record that its loop stores for one day.
\<close>

definition daysInYear :: "env \<Rightarrow> int \<Rightarrow> int" where
  "daysInYear e year = (if Date_getDate e (Date_local e year 1 29) = 29 then 366 else 365)"

definition dayEntry :: "env \<Rightarrow> state \<Rightarrow> int \<Rightarrow> int \<Rightarrow> topoDay" where
  "dayEntry e s year day =
     (let times = SunCalc_getTimes e (Date_local e year 0 day)
                    (lat (currentLocation s)) (lon (currentLocation s))
      in \<lparr>topoSunrise = fst (findTopoTime (isLocationSunlit e s) (sunrise times) (solarNoon times) True),
          topoSunset = fst (findTopoTime (isLocationSunlit e s) (solarNoon times) (sunset times) False),
          day_sunrise = sunrise times, day_sunset = sunset times\<rparr>)"

definition cacheValid :: "env \<Rightarrow> state \<Rightarrow> bool" where
  "cacheValid e s =
     (cache_lat (topoTimesCache s) = Some (lat (currentLocation s)) \<and>
      cache_lon (topoTimesCache s) = Some (lon (currentLocation s)) \<and>
      cache_year (topoTimesCache s) = Some (Date_getFullYear e (selectedDate s)) \<and>
      cache_data (topoTimesCache s) \<noteq> [])"

text \<open>
  For the statements about doubles: the quantum of a number is the distance between the
  doubles around it; \<open>midpoint low high\<close> is the \<open>mid\<close> of \<open>findTopoTime\<close>; and
  \<open>bracket a b low high\<close> says that \<open>low\<close> and \<open>high\<close> are doubles between the dates
  \<open>a\<close> and \<open>b\<close>, in this order.
\<close>

definition quantum :: "real \<Rightarrow> real" where
  "quantum x = 2 powi (float64_exponent \<bar>x\<bar> - 52)"

definition midpoint :: "real \<Rightarrow> real \<Rightarrow> real" where
  "midpoint low high = js_add low (js_div (js_sub high low) 2)"

definition bracket :: "int \<Rightarrow> int \<Rightarrow> real \<Rightarrow> real \<Rightarrow> bool" where
  "bracket a b low high \<longleftrightarrow>
     of_int a \<le> low \<and> low \<le> high \<and> high \<le> of_int b \<and> toFloat64 low = low \<and> toFloat64 high = high"

text \<open>
  \<open>nextBounds\<close> is what one iteration of the loop of \<open>findTopoTime\<close> assigns to
  \<open>low\<close>, \<open>high\<close> and \<open>bestTime\<close>; \<open>dayCalls\<close> are the two calls of
  \<open>findTopoTime\<close> for one day; \<open>alwaysLit\<close> and \<open>neverLit\<close> are the two constant
  occlusion tests.
\<close>

definition nextBounds :: "bool \<Rightarrow> bool \<Rightarrow> real \<Rightarrow> real \<Rightarrow> real \<Rightarrow> real \<times> real \<times> real" where
  "nextBounds findFirstLight lit low high bestTime =
     (let mid = js_add low (js_div (js_sub high low) 2)
      in if findFirstLight
         then (if lit then (low, mid, mid) else (mid, high, bestTime))
         else (if lit then (mid, high, mid) else (low, mid, bestTime)))"

definition dayCalls :: "env \<Rightarrow> state \<Rightarrow> int \<Rightarrow> int \<Rightarrow> (int \<times> int \<times> bool) list" where
  "dayCalls e s year day =
     (let times = SunCalc_getTimes e (Date_local e year 0 day)
                    (lat (currentLocation s)) (lon (currentLocation s))
      in [(sunrise times, solarNoon times, True), (solarNoon times, sunset times, False)])"

definition alwaysLit :: "int \<Rightarrow> sunlit" where
  "alwaysLit date = \<lparr>isLit = True, intersectionPoint = None\<rparr>"

definition neverLit :: "int \<Rightarrow> sunlit" where
  "neverLit date = \<lparr>isLit = False, intersectionPoint = None\<rparr>"

text \<open>
  For the statements about stitching: \<open>vertexZ g t k\<close> is \<open>getZ(k)\<close> on the position
  attribute of tile \<open>t\<close>; a mesh is as \<open>setupScene\<close> builds it when it has at least
  \<open>gridSize * gridSize\<close> top vertices and as many entries in its buffer; a grid is
  installed up to \<open>gridRadius\<close> when every tile within the radius has such a mesh.
\<close>

definition vertexZ :: "grid \<Rightarrow> int \<times> int \<Rightarrow> nat \<Rightarrow> real" where
  "vertexZ g t k = getZ (positionZ (the (g t))) k"

definition meshOK :: "mesh \<Rightarrow> bool" where
  "meshOK m \<longleftrightarrow> gridSize * gridSize \<le> topVerticesCount m \<and> gridSize * gridSize \<le> length (positionZ m)"

definition installed :: "grid \<Rightarrow> int \<Rightarrow> bool" where
  "installed g gridRadius \<longleftrightarrow>
     (\<forall>i j. - gridRadius \<le> i \<and> i \<le> gridRadius \<and> - gridRadius \<le> j \<and> j \<le> gridRadius
        \<longrightarrow> (\<exists>m. g (i, j) = Some m \<and> meshOK m))"

text \<open>
  A grid for examples: the scene at start, where tile \<open>(1, 0)\<close> has height 4 at its
  top right vertex, tile \<open>(0, 0)\<close> height 1 at the right end of its second row, and tile
  \<open>(0, 1)\<close> height \<open>1 + 2^-23\<close> at the left end of its second row.
\<close>

definition stitchExample :: grid where
  "stitchExample =
     (let flat = createSkirtedPlaneGeometry 255 255 1
      in setupScene
           ((1, 0) \<mapsto> flat\<lparr>positionZ := (positionZ flat)[255 := 4]\<rparr>,
            (0, 0) \<mapsto> flat\<lparr>positionZ := (positionZ flat)[511 := 1]\<rparr>,
            (0, 1) \<mapsto> flat\<lparr>positionZ := (positionZ flat)[256 := 8388609 / 8388608]\<rparr>))"

text \<open>
  For the statements about flat terrain: every sample of every tile that has data is 0.
  \<open>rayPoint\<close> is \<open>currentPos\<close> in the loop of \<open>isLocationSunlit\<close>. The example is the
  state at start with a tile of zeros installed at the centre and the marker 0.01 above it,
  where \<open>updateTerrain\<close> puts it.
\<close>

definition flatTerrain :: "state \<Rightarrow> bool" where
  "flatTerrain s \<longleftrightarrow> (\<forall>entry \<in> set (terrainHeightData s). \<forall>h \<in> set (heights (snd entry)). h = 0)"

definition rayPoint :: "Vector3 \<Rightarrow> Vector3 \<Rightarrow> int \<Rightarrow> Vector3" where
  "rayPoint sunPosition rayDirection i = vec_add sunPosition (multiplyScalar rayDirection (of_int i * 2))"

definition flatExample :: state where
  "flatExample =
     (initialState 0)
       \<lparr>terrainHeightData := [((0, 0), \<lparr>heights = replicate 65536 0, width = 256, height = 256\<rparr>)],
        locationMarker_position := Vector3 0 (1 / 100) 0\<rparr>"

text \<open>
  \<open>preserves h h'\<close>: every vector of the store \<open>h\<close> is in \<open>h'\<close> at the same address
  with the same coordinates.
\<close>

definition preserves :: "store \<Rightarrow> store \<Rightarrow> bool" where
  "preserves h h' \<longleftrightarrow> length h \<le> length h' \<and> (\<forall>a < length h. h' ! a = h ! a)"

text \<open>
  An example for the zoom level: the state at load with one tile, of constant height 2, at
  the centre of the grid, the marker at height 7.5 over the origin, and the zoom level
  given.
\<close>

definition zoomExample :: "int \<Rightarrow> state" where
  "zoomExample zoom =
     (initialState 0)
       \<lparr>mapZoom := zoom,
        terrainHeightData := [((0, 0), \<lparr>heights = replicate 65536 2, width = 256, height = 256\<rparr>)],
        locationMarker_position := Vector3 0 (15 / 2) 0\<rparr>"

text \<open>
  Two more examples: a tile record that says 2 by 2 and holds three samples, at the centre
  of the grid of the state at load; and the flat example with the marker on the terrain.
\<close>

definition shortTileExample :: state where
  "shortTileExample =
     (initialState 0)\<lparr>terrainHeightData := [((0, 0), \<lparr>heights = [1, 2, 3], width = 2, height = 2\<rparr>)]\<rparr>"

definition groundExample :: state where
  "groundExample = flatExample\<lparr>locationMarker_position := Vector3 0 0 0\<rparr>"

text \<open>
  A stand-in for the outside world, for examples: the sun stays at one altitude and
  azimuth, every day has its sunrise, noon and sunset 6, 12 and 18 hours after the date
  asked for, and the calendar is that of a leap year whose days start 86400000 ms apart.
\<close>

definition fixedSun :: "real \<Rightarrow> real \<Rightarrow> env" where
  "fixedSun alt az =
     \<lparr>SunCalc_getPosition = (\<lambda>date la lo. \<lparr>altitude = alt, azimuth = az\<rparr>),
      SunCalc_getTimes = (\<lambda>date la lo.
        \<lparr>sunrise = date + 21600000, solarNoon = date + 43200000, sunset = date + 64800000\<rparr>),
      Date_getFullYear = (\<lambda>date. 2024),
      Date_local = (\<lambda>year monthIndex day. ((if monthIndex = 1 then 31 else 0) + day - 1) * 86400000),
      Date_getDate = (\<lambda>date. if date = 59 * 86400000 then 29 else 1)\<rparr>"

section \<open>Round trip of the tile coordinates\<close>






section \<open>Height queries\<close>

lemma tileWorldSize_pos: "0 < getTileWorldSizeForZoom zoom"
  by (simp add: getTileWorldSizeForZoom_def TILE_BASE_SIZE_def)

lemma round_gt_iff: "round (u::real) > r \<longleftrightarrow> u \<ge> of_int r + 1/2"
  unfolding round_def by linarith

lemma round_lt_iff: "round (u::real) < r \<longleftrightarrow> u < of_int r - 1/2"
  unfolding round_def by linarith

text \<open>
  The test of \<open>getTerrainHeightAt\<close> on the tile offset is a test on the position: the
  footprint of the grid is the square of half side \<open>(gridRadius + 1/2) * tileWorldSize\<close>
  around the position of the grid, closed below and open above.
\<close>

lemma outsideGrid_footprint:
  "outsideGrid s (tileOffset s worldX worldZ) \<longleftrightarrow>
     (let half = (of_int (getGridRadiusForZoom (mapZoom s)) + 1/2) * getTileWorldSizeForZoom (mapZoom s);
          dx = worldX - terrainGrid_position_x s;
          dz = worldZ - terrainGrid_position_z s
      in dz < - half \<or> half \<le> dz \<or> dx < - half \<or> half \<le> dx)"
  using tileWorldSize_pos [of "mapZoom s"]
  by (simp add: outsideGrid_def tileOffset_def Let_def round_gt_iff round_lt_iff field_simps)

lemma getTerrainHeightAt_outside:
  "outsideGrid s (tileOffset s worldX worldZ) \<Longrightarrow> getTerrainHeightAt s worldX worldZ = MinusInfinity"
  by (simp add: getTerrainHeightAt_def outsideGrid_def tileOffset_def Let_def)

lemma getTerrainHeightAt_no_data:
  "\<not> outsideGrid s (tileOffset s worldX worldZ) \<Longrightarrow>
   map_of (terrainHeightData s) (tileOffset s worldX worldZ) = None \<Longrightarrow>
   getTerrainHeightAt s worldX worldZ = Finite 0"
  by (simp add: getTerrainHeightAt_def outsideGrid_def tileOffset_def Let_def)

lemma initialState_fields:
  "mapZoom (initialState now) = 13"
  "terrainHeightData (initialState now) = []"
  "terrainGrid_position_x (initialState now) = 0"
  "terrainGrid_position_z (initialState now) = 0"
  "locationMarker_position (initialState now) = Vector3 0 0 0"
  "terrainGrid (initialState now) = setupScene"
  by (simp_all add: initialState_def)

lemma tileOffset_initial_far: "tileOffset (initialState now) 1000 0 = (0, 100)"
  by (simp add: tileOffset_def initialState_fields getTileWorldSizeForZoom_def
        TILE_BASE_SIZE_def TILE_BASE_ZOOM_def)

lemma tileOffset_initial_origin: "tileOffset (initialState now) 0 0 = (0, 0)"
  by (simp add: tileOffset_def initialState_fields getTileWorldSizeForZoom_def
        TILE_BASE_SIZE_def TILE_BASE_ZOOM_def)

text \<open>
  C2. For every world position: when its tile offset is beyond the grid radius in either
  axis, \<open>getTerrainHeightAt\<close> returns \<open>-Infinity\<close>; when the offset is within the
  radius and \<open>terrainHeightData\<close> has no entry for that tile, it returns 0.
\<close>

theorem getTerrainHeightAt_sentinels:
  "(outsideGrid s (tileOffset s worldX worldZ) \<longrightarrow> getTerrainHeightAt s worldX worldZ = MinusInfinity)
   \<and> (\<not> outsideGrid s (tileOffset s worldX worldZ) \<and>
       map_of (terrainHeightData s) (tileOffset s worldX worldZ) = None
       \<longrightarrow> getTerrainHeightAt s worldX worldZ = Finite 0)"
  by (simp add: getTerrainHeightAt_outside getTerrainHeightAt_no_data)

theorem getTerrainHeightAt_sentinels_witness:
  "outsideGrid (initialState 0) (tileOffset (initialState 0) 1000 0)
   \<and> getTerrainHeightAt (initialState 0) 1000 0 = MinusInfinity
   \<and> \<not> outsideGrid (initialState 0) (tileOffset (initialState 0) 0 0)
   \<and> map_of (terrainHeightData (initialState 0)) (tileOffset (initialState 0) 0 0) = None
   \<and> getTerrainHeightAt (initialState 0) 0 0 = Finite 0"
  using getTerrainHeightAt_sentinels [of "initialState 0" 1000 0]
        getTerrainHeightAt_sentinels [of "initialState 0" 0 0]
  by (simp add: tileOffset_initial_far tileOffset_initial_origin outsideGrid_def
        getGridRadiusForZoom_def initialState_fields)

lemma getTerrainHeightAt_alt:
  "getTerrainHeightAt s worldX worldZ =
     (if outsideGrid s (tileOffset s worldX worldZ) then MinusInfinity
      else case map_of (terrainHeightData s) (tileOffset s worldX worldZ) of
        None \<Rightarrow> Finite 0
      | Some td \<Rightarrow>
          (let gridX = fst (sampleCoords s td worldX worldZ);
               gridZ = snd (sampleCoords s td worldX worldZ)
           in if \<lfloor>gridX\<rfloor> < 0 \<or> \<lceil>gridX\<rceil> \<ge> int (width td) \<or> \<lfloor>gridZ\<rfloor> < 0 \<or> \<lceil>gridZ\<rceil> \<ge> int (height td)
              then Finite 0
              else case (sample (heights td) (\<lfloor>gridZ\<rfloor> * int (width td) + \<lfloor>gridX\<rfloor>),
                         sample (heights td) (\<lceil>gridZ\<rceil> * int (width td) + \<lfloor>gridX\<rfloor>),
                         sample (heights td) (\<lfloor>gridZ\<rfloor> * int (width td) + \<lceil>gridX\<rceil>),
                         sample (heights td) (\<lceil>gridZ\<rceil> * int (width td) + \<lceil>gridX\<rceil>)) of
                  (Some h11, Some h12, Some h21, Some h22) \<Rightarrow>
                     Finite ((h11 * (1 - (gridZ - of_int \<lfloor>gridZ\<rfloor>)) + h12 * (gridZ - of_int \<lfloor>gridZ\<rfloor>))
                               * (1 - (gridX - of_int \<lfloor>gridX\<rfloor>))
                             + (h21 * (1 - (gridZ - of_int \<lfloor>gridZ\<rfloor>)) + h22 * (gridZ - of_int \<lfloor>gridZ\<rfloor>))
                               * (gridX - of_int \<lfloor>gridX\<rfloor>))
                | _ \<Rightarrow> Finite 0))"
  unfolding getTerrainHeightAt_def outsideGrid_def tileOffset_def sampleCoords_def Let_def
    split_conv fst_conv snd_conv
  by (rule refl)

lemma round_frac_bounds:
  fixes u :: real
  shows "0 \<le> u - of_int (round u) + 1 / 2" "u - of_int (round u) + 1 / 2 < 1"
  unfolding round_def by linarith+

lemma sampleCoords_bounds:
  assumes "sampleCoords s td worldX worldZ = (gridX, gridZ)"
    and "0 < width td" "0 < height td"
  shows "0 \<le> gridX" "gridX \<le> real (width td) - 1" "0 \<le> gridZ" "gridZ \<le> real (height td) - 1"
proof -
  define tws where "tws = getTileWorldSizeForZoom (mapZoom s)"
  have tws: "0 < tws" unfolding tws_def by (rule tileWorldSize_pos)
  define ux where "ux = (worldX - terrainGrid_position_x s) / tws"
  define uz where "uz = (worldZ - terrainGrid_position_z s) / tws"
  have ex: "(worldX - terrainGrid_position_x s - of_int (round ux) * tws + tws / 2) / tws
              = ux - of_int (round ux) + 1 / 2"
    using tws by (simp add: ux_def field_simps)
  have ez: "(worldZ - terrainGrid_position_z s - of_int (round uz) * tws + tws / 2) / tws
              = uz - of_int (round uz) + 1 / 2"
    using tws by (simp add: uz_def field_simps)
  have gx: "gridX = (ux - of_int (round ux) + 1 / 2) * (real (width td) - 1)"
    and gz: "gridZ = (uz - of_int (round uz) + 1 / 2) * (real (height td) - 1)"
    using assms(1)
    unfolding sampleCoords_def tileOffset_def Let_def split_conv tws_def [symmetric]
      ux_def [symmetric] uz_def [symmetric] ex ez
    by simp_all
  have w: "0 \<le> real (width td) - 1" and h: "0 \<le> real (height td) - 1"
    using assms(2,3) by simp_all
  show "0 \<le> gridX" unfolding gx using round_frac_bounds(1) [of ux] w by (intro mult_nonneg_nonneg)
  show "0 \<le> gridZ" unfolding gz using round_frac_bounds(1) [of uz] h by (intro mult_nonneg_nonneg)
  have "(ux - of_int (round ux) + 1 / 2) * (real (width td) - 1) \<le> 1 * (real (width td) - 1)"
    using round_frac_bounds(2) [of ux] w by (intro mult_right_mono) simp_all
  then show "gridX \<le> real (width td) - 1" unfolding gx by simp
  have "(uz - of_int (round uz) + 1 / 2) * (real (height td) - 1) \<le> 1 * (real (height td) - 1)"
    using round_frac_bounds(2) [of uz] h by (intro mult_right_mono) simp_all
  then show "gridZ \<le> real (height td) - 1" unfolding gz by simp
qed

lemma index_in_bounds:
  fixes x z w h :: int
  assumes "0 \<le> x" "x \<le> w - 1" "0 \<le> z" "z \<le> h - 1"
  shows "0 \<le> z * w + x" "z * w + x < w * h"
proof -
  have w: "0 \<le> w" using assms by linarith
  show "0 \<le> z * w + x" using assms w by simp
  have "z * w \<le> (h - 1) * w" using assms w by (intro mult_right_mono) simp_all
  then show "z * w + x < w * h" using assms by (simp add: algebra_simps)
qed

lemma wellFormed_no_fallback:
  assumes "sampleCoords s td worldX worldZ = (gridX, gridZ)"
    and "0 < width td" "0 < height td" "length (heights td) = width td * height td"
  shows "\<not> indexFallback td gridX gridZ"
proof -
  note b = sampleCoords_bounds [OF assms(1,2,3)]
  have fx: "0 \<le> \<lfloor>gridX\<rfloor>" and fz: "0 \<le> \<lfloor>gridZ\<rfloor>" using b by simp_all
  have "gridX \<le> of_int (int (width td) - 1)" using b(2) by simp
  then have cx: "\<lceil>gridX\<rceil> \<le> int (width td) - 1" by (rule ceiling_le)
  have "gridZ \<le> of_int (int (height td) - 1)" using b(4) by simp
  then have cz: "\<lceil>gridZ\<rceil> \<le> int (height td) - 1" by (rule ceiling_le)
  have fcx: "\<lfloor>gridX\<rfloor> \<le> \<lceil>gridX\<rceil>" and fcz: "\<lfloor>gridZ\<rfloor> \<le> \<lceil>gridZ\<rceil>" by linarith+
  have len: "int (length (heights td)) = int (width td) * int (height td)"
    using assms(4) by simp
  have s: "sample (heights td) k \<noteq> None" if "0 \<le> k" "k < int (width td) * int (height td)" for k
    using that len by (simp add: sample_def)
  have s1: "sample (heights td) (\<lfloor>gridZ\<rfloor> * int (width td) + \<lfloor>gridX\<rfloor>) \<noteq> None"
    by (rule s; rule index_in_bounds [where h = "int (height td)"]) (use fx fz cx cz fcx fcz in linarith)+
  have s2: "sample (heights td) (\<lceil>gridZ\<rceil> * int (width td) + \<lfloor>gridX\<rfloor>) \<noteq> None"
    by (rule s; rule index_in_bounds [where h = "int (height td)"]) (use fx fz cx cz fcx fcz in linarith)+
  have s3: "sample (heights td) (\<lfloor>gridZ\<rfloor> * int (width td) + \<lceil>gridX\<rceil>) \<noteq> None"
    by (rule s; rule index_in_bounds [where h = "int (height td)"]) (use fx fz cx cz fcx fcz in linarith)+
  have s4: "sample (heights td) (\<lceil>gridZ\<rceil> * int (width td) + \<lceil>gridX\<rceil>) \<noteq> None"
    by (rule s; rule index_in_bounds [where h = "int (height td)"]) (use fx fz cx cz fcx fcz in linarith)+
  show ?thesis
    unfolding indexFallback_def sampleIndices_def using fx fz cx cz s1 s2 s3 s4 by simp
qed

lemma getTerrainHeightAt_tile:
  assumes "\<not> outsideGrid s (tileOffset s worldX worldZ)"
    and "map_of (terrainHeightData s) (tileOffset s worldX worldZ) = Some td"
    and "sampleCoords s td worldX worldZ = (gridX, gridZ)"
  shows "getTerrainHeightAt s worldX worldZ =
     (if indexFallback td gridX gridZ then Finite 0 else Finite (interpolate td gridX gridZ))"
  unfolding getTerrainHeightAt_alt indexFallback_def sampleIndices_def interpolate_def
  using assms
  by (auto simp: Let_def sample_def split: option.splits if_splits)

text \<open>
  C10. For a query inside the grid whose tile has data: when a sample index is outside the
  tile (floor below 0, or ceiling at or above the width or the height), or one of the four
  samples read is undefined, \<open>getTerrainHeightAt\<close> returns 0. Otherwise the four indices
  it reads are indices of the height array, and it returns the interpolated value: no
  result depends on a read outside the array. For a tile of at least one row and one column
  that holds \<open>width * height\<close> samples, as every tile of \<open>getTileData\<close> does, the
  fallback is never taken.
\<close>

theorem getTerrainHeightAt_index_fallback:
  assumes "\<not> outsideGrid s (tileOffset s worldX worldZ)"
    and "map_of (terrainHeightData s) (tileOffset s worldX worldZ) = Some tileData"
    and "sampleCoords s tileData worldX worldZ = (gridX, gridZ)"
  shows "(indexFallback tileData gridX gridZ \<longrightarrow> getTerrainHeightAt s worldX worldZ = Finite 0)
       \<and> (\<not> indexFallback tileData gridX gridZ \<longrightarrow>
            (\<forall>k \<in> set (sampleIndices tileData gridX gridZ). 0 \<le> k \<and> nat k < length (heights tileData))
            \<and> getTerrainHeightAt s worldX worldZ = Finite (interpolate tileData gridX gridZ))
       \<and> (0 < width tileData \<and> 0 < height tileData
           \<and> length (heights tileData) = width tileData * height tileData
           \<longrightarrow> \<not> indexFallback tileData gridX gridZ)"
proof (intro conjI impI)
  assume "indexFallback tileData gridX gridZ"
  then show "getTerrainHeightAt s worldX worldZ = Finite 0"
    by (simp add: getTerrainHeightAt_tile [OF assms])
next
  assume n: "\<not> indexFallback tileData gridX gridZ"
  then show "getTerrainHeightAt s worldX worldZ = Finite (interpolate tileData gridX gridZ)"
    by (simp add: getTerrainHeightAt_tile [OF assms])
  show "\<forall>k \<in> set (sampleIndices tileData gridX gridZ). 0 \<le> k \<and> nat k < length (heights tileData)"
    using n unfolding indexFallback_def by (auto simp: sample_def split: if_splits)
next
  assume "0 < width tileData \<and> 0 < height tileData
           \<and> length (heights tileData) = width tileData * height tileData"
  then show "\<not> indexFallback tileData gridX gridZ"
    using wellFormed_no_fallback [OF assms(3)] by blast
qed

text \<open>
  Both cases: the fallback on the tile that is one sample short (the index of \<open>h22\<close> is
  3), and the interpolated value on the example of constant height 2.
\<close>

lemma half_floor_ceiling: "\<lfloor>1 / 2 :: real\<rfloor> = 0" "\<lceil>1 / 2 :: real\<rceil> = 1"
  by (simp_all add: ceiling_eq_iff)

lemma shortTileExample_query:
  "tileOffset shortTileExample 0 0 = (0, 0)"
  "\<not> outsideGrid shortTileExample (0, 0)"
  "map_of (terrainHeightData shortTileExample) (0, 0) = Some \<lparr>heights = [1, 2, 3], width = 2, height = 2\<rparr>"
  "sampleCoords shortTileExample \<lparr>heights = [1, 2, 3], width = 2, height = 2\<rparr> 0 0 = (1 / 2, 1 / 2)"
  "indexFallback \<lparr>heights = [1, 2, 3], width = 2, height = 2\<rparr> (1 / 2) (1 / 2)"
  by (simp_all add: shortTileExample_def tileOffset_def outsideGrid_def sampleCoords_def
      indexFallback_def sampleIndices_def sample_def initialState_def half_floor_ceiling
      getTileWorldSizeForZoom_def getGridRadiusForZoom_def TILE_BASE_SIZE_def TILE_BASE_ZOOM_def)

lemma zoomExample_query:
  "tileOffset (zoomExample 13) 0 0 = (0, 0)"
  "\<not> outsideGrid (zoomExample 13) (0, 0)"
  "map_of (terrainHeightData (zoomExample 13)) (0, 0) = Some \<lparr>heights = replicate 65536 2, width = 256, height = 256\<rparr>"
  "sampleCoords (zoomExample 13) \<lparr>heights = replicate 65536 2, width = 256, height = 256\<rparr> 0 0 = (255 / 2, 255 / 2)"
  "interpolate \<lparr>heights = replicate 65536 2, width = 256, height = 256\<rparr> (255 / 2) (255 / 2) = 2"
  by (simp_all add: zoomExample_def tileOffset_def outsideGrid_def sampleCoords_def
      interpolate_def initialState_def
      getTileWorldSizeForZoom_def getGridRadiusForZoom_def TILE_BASE_SIZE_def TILE_BASE_ZOOM_def)

theorem getTerrainHeightAt_index_fallback_witness:
  "\<not> outsideGrid shortTileExample (tileOffset shortTileExample 0 0)
   \<and> map_of (terrainHeightData shortTileExample) (tileOffset shortTileExample 0 0)
       = Some \<lparr>heights = [1, 2, 3], width = 2, height = 2\<rparr>
   \<and> sampleCoords shortTileExample \<lparr>heights = [1, 2, 3], width = 2, height = 2\<rparr> 0 0 = (1 / 2, 1 / 2)
   \<and> indexFallback \<lparr>heights = [1, 2, 3], width = 2, height = 2\<rparr> (1 / 2) (1 / 2)
   \<and> getTerrainHeightAt shortTileExample 0 0 = Finite 0
   \<and> \<not> outsideGrid (zoomExample 13) (tileOffset (zoomExample 13) 0 0)
   \<and> map_of (terrainHeightData (zoomExample 13)) (tileOffset (zoomExample 13) 0 0)
       = Some \<lparr>heights = replicate 65536 2, width = 256, height = 256\<rparr>
   \<and> sampleCoords (zoomExample 13) \<lparr>heights = replicate 65536 2, width = 256, height = 256\<rparr> 0 0
       = (255 / 2, 255 / 2)
   \<and> \<not> indexFallback \<lparr>heights = replicate 65536 2, width = 256, height = 256\<rparr> (255 / 2) (255 / 2)
   \<and> getTerrainHeightAt (zoomExample 13) 0 0 = Finite 2"
proof -
  note a = shortTileExample_query
  note b = zoomExample_query
  have a': "\<not> outsideGrid shortTileExample (tileOffset shortTileExample 0 0)"
    "map_of (terrainHeightData shortTileExample) (tileOffset shortTileExample 0 0)
       = Some \<lparr>heights = [1, 2, 3], width = 2, height = 2\<rparr>"
    by (simp_all add: a)
  have b': "\<not> outsideGrid (zoomExample 13) (tileOffset (zoomExample 13) 0 0)"
    "map_of (terrainHeightData (zoomExample 13)) (tileOffset (zoomExample 13) 0 0)
       = Some \<lparr>heights = replicate 65536 2, width = 256, height = 256\<rparr>"
    by (simp_all add: b)
  note A = getTerrainHeightAt_index_fallback [OF a' a(4)]
  note B = getTerrainHeightAt_index_fallback [OF b' b(4)]
  have nb: "\<not> indexFallback \<lparr>heights = replicate 65536 2, width = 256, height = 256\<rparr> (255 / 2) (255 / 2)"
    using B by simp
  have "getTerrainHeightAt shortTileExample 0 0 = Finite 0" using A a(5) by blast
  moreover have "getTerrainHeightAt (zoomExample 13) 0 0 = Finite 2" using B nb b(5) by simp
  ultimately show ?thesis using a' b' a(4,5) b(4) nb by blast
qed

section \<open>What the height queries and the occlusion test read\<close>

lemma getTerrainHeightAt_terrainGrid [simp]:
  "getTerrainHeightAt (s\<lparr>terrainGrid := g\<rparr>) = getTerrainHeightAt s"
  by (rule ext, rule ext) (simp add: getTerrainHeightAt_def cong: if_cong)

lemma getTerrainHeightAt_topoTimesCache [simp]:
  "getTerrainHeightAt (s\<lparr>topoTimesCache := c\<rparr>) = getTerrainHeightAt s"
  by (rule ext, rule ext) (simp add: getTerrainHeightAt_def cong: if_cong)

lemma fineProbe_heights:
  "getTerrainHeightAt s = getTerrainHeightAt s' \<Longrightarrow>
   fineProbe s prevPos currentPos j = fineProbe s' prevPos currentPos j"
proof (induction s prevPos currentPos j rule: fineProbe.induct)
  case (1 s prevPos currentPos j)
  show ?case
  proof (cases "j \<le> 1")
    case True
    then show ?thesis
      using 1 by (subst fineProbe.simps, subst (2) fineProbe.simps)
                 (auto simp: Let_def split: number.splits)
  next
    case False
    then show ?thesis by (simp add: fineProbe.simps)
  qed
qed

lemma rayMarch_heights:
  "getTerrainHeightAt s = getTerrainHeightAt s' \<Longrightarrow>
   rayMarch s sunPosition rayDirection numSteps i = rayMarch s' sunPosition rayDirection numSteps i"
proof (induction s sunPosition rayDirection numSteps i rule: rayMarch.induct)
  case (1 s sunPosition rayDirection numSteps i)
  show ?case
  proof (cases "i < numSteps")
    case True
    then show ?thesis
      using 1 fineProbe_heights [OF "1.prems"]
      by (subst rayMarch.simps, subst (2) rayMarch.simps)
         (auto simp: Let_def split: number.splits option.splits)
  next
    case False
    then show ?thesis by (simp add: rayMarch.simps)
  qed
qed

lemma isLocationSunlit_cong:
  assumes "getTerrainHeightAt s = getTerrainHeightAt s'"
    and "terrainHeightData s = [] \<longleftrightarrow> terrainHeightData s' = []"
    and "currentLocation s = currentLocation s'"
    and "locationMarker_position s = locationMarker_position s'"
  shows "isLocationSunlit e s date = isLocationSunlit e s' date"
  using assms rayMarch_heights [OF assms(1)]
  by (simp add: isLocationSunlit_def getSunPosition_def Let_def)

text \<open>
  C9. \<open>synchronizeTileBoundaries\<close> changes nothing but the position buffers of the
  meshes: \<open>terrainHeightData\<close> is as before, and so is the result of every height query
  and of every occlusion test.
\<close>

theorem synchronizeTileBoundaries_frame:
  "terrainHeightData (synchronizeTileBoundaries gridRadius s) = terrainHeightData s
   \<and> getTerrainHeightAt (synchronizeTileBoundaries gridRadius s) worldX worldZ
       = getTerrainHeightAt s worldX worldZ
   \<and> isLocationSunlit e (synchronizeTileBoundaries gridRadius s) date = isLocationSunlit e s date
   \<and> (synchronizeTileBoundaries gridRadius s)\<lparr>terrainGrid := terrainGrid s\<rparr> = s"
proof -
  have "isLocationSunlit e (synchronizeTileBoundaries gridRadius s) date = isLocationSunlit e s date"
    by (rule isLocationSunlit_cong) (simp_all add: synchronizeTileBoundaries_def)
  then show ?thesis
    by (simp add: synchronizeTileBoundaries_def)
qed

section \<open>Height decoding\<close>

lemma toFloat32_zero [simp]: "toFloat32 0 = 0"
  by (simp add: toFloat32_def round_half_even_def)

lemma float32_exponent_164: "float32_exponent (4096 / 25) = 7"
  by code_simp

lemma toFloat32_164: "toFloat32 (- (4096 / 25)) = - (5368709 / 32768)"
  by (simp add: toFloat32_def float32_exponent_164 round_half_even_def Let_def)

lemma decodeHeight_zero: "decodeHeight 0 0 0 = - (4096 / 25)"
  by (simp add: decodeHeight_def)

lemma getTileData_heights:
  "heights (getTileData img) =
     map (\<lambda>i. toFloat32 (decodeHeight (data img ! (i * 4)) (data img ! (i * 4 + 1)) (data img ! (i * 4 + 2))))
       [0 ..< image_width img * image_height img]"
  by (simp add: getTileData_def Let_def)

text \<open>
  C7 (as amended). For a raster with its \<open>4 * width * height\<close> bytes, \<open>getTileData\<close>
  returns the width, the height and \<open>width * height\<close> samples, sample \<open>i\<close> being
  \<open>((r * 256 + g + b / 256) - 32768) * 0.005\<close> for the bytes \<open>r\<close>, \<open>g\<close>,
  \<open>b\<close> of pixel \<open>i\<close>, converted to single precision. For a raster of zero bytes every
  sample is \<open>-10737418 / 65536\<close> (which is \<open>-163.839996337890625\<close>). The result is a
  function of the raster alone.
\<close>

theorem getTileData_samples:
  assumes "length (data img) = 4 * image_width img * image_height img"
  shows "length (heights (getTileData img)) = image_width img * image_height img
    \<and> width (getTileData img) = image_width img \<and> height (getTileData img) = image_height img
    \<and> (\<forall>i < image_width img * image_height img.
         heights (getTileData img) ! i
           = toFloat32 (decodeHeight (data img ! (4 * i)) (data img ! (4 * i + 1)) (data img ! (4 * i + 2))))
    \<and> ((\<forall>b \<in> set (data img). b = 0) \<longrightarrow>
         (\<forall>i < image_width img * image_height img.
            heights (getTileData img) ! i = - (10737418 / 65536)))"
proof -
  let ?n = "image_width img * image_height img"
  have len: "length (heights (getTileData img)) = ?n"
    by (simp add: getTileData_heights)
  have each: "heights (getTileData img) ! i
      = toFloat32 (decodeHeight (data img ! (4 * i)) (data img ! (4 * i + 1)) (data img ! (4 * i + 2)))"
    if "i < ?n" for i
    using that by (simp add: getTileData_heights mult.commute)
  have zero: "heights (getTileData img) ! i = - (10737418 / 65536)"
    if i: "i < ?n" and all0: "\<forall>b \<in> set (data img). b = 0" for i
  proof -
    have "4 * i + 2 < length (data img)" using i assms by simp
    then have "data img ! (4 * i) = 0" "data img ! (4 * i + 1) = 0" "data img ! (4 * i + 2) = 0"
      using all0 by (simp_all add: all_set_conv_all_nth)
    then show ?thesis
      using each [OF i] by (simp add: decodeHeight_zero toFloat32_164)
  qed
  show ?thesis
    using len each zero by (simp add: getTileData_def Let_def)
qed


theorem getTileData_samples_witness:
  "length (data (zeroRaster 1 1)) = 4 * image_width (zeroRaster 1 1) * image_height (zeroRaster 1 1)
   \<and> length (heights (getTileData (zeroRaster 1 1))) = 1
   \<and> heights (getTileData (zeroRaster 1 1)) ! 0 = - (10737418 / 65536)"
  using getTileData_samples [of "zeroRaster 1 1"]
  by (simp add: zeroRaster_def)

text \<open>
  Against C7 as stated: the one sample of the 1 by 1 raster of zero bytes is not
  \<open>-163.84\<close>, the value of the formula.
\<close>

theorem getTileData_zero_raster_counterexample:
  "heights (getTileData (zeroRaster 1 1)) ! 0 \<noteq> - 163.84 \<and> decodeHeight 0 0 0 = - 163.84"
  by (simp add: getTileData_heights zeroRaster_def decodeHeight_zero toFloat32_164)


section \<open>Rounding to a double\<close>

text \<open>
  What is used of \<open>toFloat64\<close>: it moves a number by at most half its quantum, which is
  at most \<open>2^-53\<close> of the number (or \<open>2^-1075\<close>); it leaves a double where it is, in
  particular an integer below \<open>2^53\<close>; and it keeps the order.
\<close>

lemma round_half_even_error: "\<bar>of_int (round_half_even y) - y\<bar> \<le> 1 / 2"
  unfolding round_half_even_def Let_def by (auto; linarith)

lemma round_half_even_of_int [simp]: "round_half_even (of_int k) = k"
  by (simp add: round_half_even_def)

lemma round_half_even_cases:
  "round_half_even y = \<lfloor>y\<rfloor> \<and> y - of_int \<lfloor>y\<rfloor> \<le> 1 / 2
   \<or> round_half_even y = \<lfloor>y\<rfloor> + 1 \<and> 1 / 2 \<le> y - of_int \<lfloor>y\<rfloor>"
  unfolding round_half_even_def Let_def by auto

lemma round_half_even_mono:
  assumes "y \<le> z"
  shows "round_half_even y \<le> round_half_even z"
proof (cases "\<lfloor>y\<rfloor> = \<lfloor>z\<rfloor>")
  case True
  then show ?thesis
    using assms unfolding round_half_even_def Let_def by auto
next
  case False
  then have "\<lfloor>y\<rfloor> + 1 \<le> \<lfloor>z\<rfloor>" using assms floor_mono [OF assms] by linarith
  moreover have "round_half_even y \<le> \<lfloor>y\<rfloor> + 1" using round_half_even_cases [of y] by auto
  moreover have "\<lfloor>z\<rfloor> \<le> round_half_even z" using round_half_even_cases [of z] by auto
  ultimately show ?thesis by linarith
qed

lemma float64_exponent_from_bounds:
  "e - int n \<le> float64_exponent_from n e a \<and> float64_exponent_from n e a \<le> e"
proof (induction n arbitrary: e)
  case 0
  then show ?case by simp
next
  case (Suc n)
  show ?case using Suc [of "e - 1"] by simp
qed

lemma float64_exponent_from_low:
  "float64_exponent_from n e a = e - int n \<or> 2 powi (float64_exponent_from n e a) \<le> a"
proof (induction n arbitrary: e)
  case 0
  then show ?case by simp
next
  case (Suc n)
  show ?case using Suc [of "e - 1"] by auto
qed

lemma float64_exponent_from_up:
  "a < 2 powi (e + 1) \<Longrightarrow> a < 2 powi (float64_exponent_from n e a + 1)"
  by (induction n arbitrary: e) auto

lemma float64_exponent_from_top:
  "float64_exponent_from n e a = e \<or> a < 2 powi (float64_exponent_from n e a + 1)"
proof (cases n)
  case 0
  then show ?thesis by simp
next
  case (Suc m)
  show ?thesis
  proof (cases "2 powi e \<le> a")
    case True
    then show ?thesis by (simp add: Suc)
  next
    case False
    then have "a < 2 powi (e - 1 + 1)" by simp
    from float64_exponent_from_up [OF this, of m] show ?thesis
      using False by (simp add: Suc)
  qed
qed

lemma float64_exponent_range: "- 1022 \<le> float64_exponent a" "float64_exponent a \<le> 1023"
  using float64_exponent_from_bounds [of 1023 2045 a] by (simp_all add: float64_exponent_def)

lemma float64_exponent_low: "float64_exponent a = - 1022 \<or> 2 powi (float64_exponent a) \<le> a"
  using float64_exponent_from_low [of 2045 1023 a] by (simp add: float64_exponent_def)

lemma float64_exponent_top: "float64_exponent a = 1023 \<or> a < 2 powi (float64_exponent a + 1)"
  using float64_exponent_from_top [of 2045 1023 a] by (simp add: float64_exponent_def)

lemma p2_pos [simp]: "0 < (2::real) powi e"
  by simp

lemma p2_le_iff: "(2::real) powi a \<le> 2 powi b \<longleftrightarrow> a \<le> b"
proof
  assume h: "(2::real) powi a \<le> 2 powi b"
  show "a \<le> b"
  proof (rule ccontr)
    assume "\<not> a \<le> b"
    then have "(2::real) powi b < 2 powi a" by (intro power_int_strict_increasing) simp_all
    then show False using h by simp
  qed
next
  assume "a \<le> b"
  then show "(2::real) powi a \<le> 2 powi b" by (intro power_int_increasing) simp_all
qed

lemma p2_less_iff: "(2::real) powi a < 2 powi b \<longleftrightarrow> a < b"
  using p2_le_iff [of b a] by (simp add: not_le [symmetric])

lemma p2_add: "(2::real) powi (a + b) = 2 powi a * 2 powi b"
  by (rule power_int_add) simp

lemma p2_diff: "(2::real) powi (a - b) = 2 powi a / 2 powi b"
  by (rule power_int_diff) simp

lemma p2_nat: "0 \<le> e \<Longrightarrow> (2::real) powi e = of_int (2 ^ nat e)"
  by (simp add: power_int_def)

lemma quantum_pos [simp]: "0 < quantum x"
  by (simp add: quantum_def)

lemma quantum_nonneg [simp]: "0 \<le> quantum x"
  by (simp add: quantum_def)

lemma quantum_nonzero [simp]: "quantum x \<noteq> 0"
  by (simp add: quantum_def)

lemma round_half_even_zero [simp]: "round_half_even 0 = 0"
  by (simp add: round_half_even_def)

lemma toFloat64_quantum: "toFloat64 x = of_int (round_half_even (x / quantum x)) * quantum x"
  by (simp add: toFloat64_def quantum_def Let_def)

lemma toFloat64_zero [simp]: "toFloat64 0 = 0"
  by (simp add: toFloat64_quantum)

lemma toFloat64_error_quantum: "\<bar>toFloat64 x - x\<bar> \<le> quantum x / 2"
proof -
  have "toFloat64 x - x = (of_int (round_half_even (x / quantum x)) - x / quantum x) * quantum x"
    by (simp add: toFloat64_quantum field_simps)
  then have "\<bar>toFloat64 x - x\<bar> = \<bar>of_int (round_half_even (x / quantum x)) - x / quantum x\<bar> * quantum x"
    by (simp add: abs_mult abs_of_pos)
  also have "\<dots> \<le> 1 / 2 * quantum x"
    by (intro mult_right_mono round_half_even_error) simp
  finally show ?thesis by simp
qed

lemma quantum_bound: "quantum x \<le> 2 powi (- 52) * \<bar>x\<bar> + 2 powi (- 1074)"
proof -
  have "float64_exponent \<bar>x\<bar> = - 1022 \<or> 2 powi (float64_exponent \<bar>x\<bar>) \<le> \<bar>x\<bar>"
    by (rule float64_exponent_low)
  then show ?thesis
  proof
    assume "float64_exponent \<bar>x\<bar> = - 1022"
    then have "quantum x = 2 powi (- 1074)" by (simp add: quantum_def)
    moreover have "0 \<le> 2 powi (- 52) * \<bar>x\<bar>" by simp
    ultimately show ?thesis by linarith
  next
    assume h: "2 powi (float64_exponent \<bar>x\<bar>) \<le> \<bar>x\<bar>"
    have "quantum x = 2 powi (- 52) * 2 powi (float64_exponent \<bar>x\<bar>)"
      unfolding quantum_def by (simp add: p2_diff power_int_minus field_simps)
    also have "\<dots> \<le> 2 powi (- 52) * \<bar>x\<bar>"
      using h by (intro mult_left_mono) simp_all
    finally show ?thesis by (simp add: add_increasing2)
  qed
qed

lemma toFloat64_error: "\<bar>toFloat64 x - x\<bar> \<le> 2 powi (- 53) * \<bar>x\<bar> + 2 powi (- 1075)"
proof -
  have "quantum x / 2 \<le> (2 powi (- 52) * \<bar>x\<bar> + 2 powi (- 1074)) / 2"
    using quantum_bound [of x] by (intro divide_right_mono) simp_all
  then have "\<bar>toFloat64 x - x\<bar> \<le> (2 powi (- 52) * \<bar>x\<bar> + 2 powi (- 1074)) / 2"
    using toFloat64_error_quantum [of x] by (rule order.trans [rotated])
  also have "\<dots> = 2 powi (- 53) * \<bar>x\<bar> + 2 powi (- 1075)"
  proof -
    have "(2::real) powi (- 52) / 2 = 2 powi (- 52 - 1)" by (simp only: p2_diff) simp
    moreover have "(2::real) powi (- 1074) / 2 = 2 powi (- 1074 - 1)" by (simp only: p2_diff) simp
    ultimately show ?thesis by (simp add: add_divide_distrib)
  qed
  finally show ?thesis .
qed

lemma toFloat64_error_bound:
  assumes "\<bar>x\<bar> \<le> M" "1 \<le> M"
  shows "\<bar>toFloat64 x - x\<bar> \<le> M / 10 ^ 15"
proof -
  have a: "(2::real) powi (- 53) \<le> 1 / (2 * 10 ^ 15)"
    by (simp add: power_int_minus field_simps)
  have "(2::real) powi (- 1075) \<le> 2 powi (- 53)" by (simp add: p2_le_iff)
  then have b: "(2::real) powi (- 1075) \<le> 1 / (2 * 10 ^ 15)" using a by linarith
  have "2 powi (- 53) * \<bar>x\<bar> \<le> 1 / (2 * 10 ^ 15) * M"
    using a assms by (intro mult_mono) simp_all
  moreover have "(2::real) powi (- 1075) \<le> 1 / (2 * 10 ^ 15) * M"
  proof -
    have "1 / (2 * 10 ^ 15) * 1 \<le> 1 / (2 * 10 ^ 15) * M"
      using assms(2) by (intro mult_left_mono) simp_all
    then show ?thesis using b by linarith
  qed
  ultimately have "2 powi (- 53) * \<bar>x\<bar> + 2 powi (- 1075) \<le> M / 10 ^ 15"
    by (simp add: field_simps)
  then show ?thesis using toFloat64_error [of x] by linarith
qed

lemma quantum_low:
  "quantum x = 2 powi (- 1074) \<or> 2 powi 52 * quantum x \<le> \<bar>x\<bar>"
proof -
  have e: "2 powi 52 * quantum x = 2 powi (float64_exponent \<bar>x\<bar>)"
    unfolding quantum_def by (simp add: p2_diff)
  show ?thesis
    using float64_exponent_low [of "\<bar>x\<bar>"] unfolding e by (auto simp: quantum_def)
qed

lemma quantum_top:
  assumes "\<bar>x\<bar> < 2 powi 1024"
  shows "\<bar>x\<bar> < 2 powi 53 * quantum x"
proof -
  have e: "2 powi 53 * quantum x = 2 powi (float64_exponent \<bar>x\<bar> + 1)"
    unfolding quantum_def by (simp add: p2_diff p2_add)
  show ?thesis
    using float64_exponent_top [of "\<bar>x\<bar>"] assms unfolding e by auto
qed

lemma quantum_ge: "2 powi (- 1074) \<le> quantum x"
proof -
  have "(- 1074 :: int) \<le> float64_exponent \<bar>x\<bar> - 52"
    using float64_exponent_range(1) [of "\<bar>x\<bar>"] by linarith
  then show ?thesis by (simp only: quantum_def p2_le_iff)
qed

lemma quantum_cases:
  obtains e where "quantum x = 2 powi e" "- 1074 \<le> e" "e \<le> 971"
  using float64_exponent_range [of "\<bar>x\<bar>"] by (auto simp: quantum_def)

text \<open>A multiple of the quantum of \<open>x\<close> is where \<open>x\<close> is rounded to when it is \<open>x\<close>.\<close>

lemma toFloat64_multiple:
  assumes "x = of_int k * quantum x"
  shows "toFloat64 x = x"
proof -
  have "x / quantum x = of_int k" using assms by (simp add: field_simps)
  then show ?thesis using assms by (simp add: toFloat64_quantum)
qed

lemma toFloat64_exact:
  assumes "\<bar>m\<bar> < 2 ^ 53" and "- 1074 \<le> j"
  shows "toFloat64 (of_int m * 2 powi j) = of_int m * 2 powi j"
proof -
  define x :: real where "x = of_int m * 2 powi j"
  obtain e where e: "quantum x = 2 powi e" "- 1074 \<le> e" by (rule quantum_cases)
  have le: "e \<le> j"
  proof (cases "quantum x = 2 powi (- 1074)")
    case True
    then have "e = - 1074" using e(1) p2_le_iff [of e "- 1074"] p2_le_iff [of "- 1074" e] by simp
    then show ?thesis using assms(2) by simp
  next
    case False
    then have "2 powi 52 * quantum x \<le> \<bar>x\<bar>" using quantum_low [of x] by blast
    then have "2 powi (52 + e) \<le> \<bar>x\<bar>" by (simp add: e(1) p2_add)
    also have "\<bar>x\<bar> = of_int \<bar>m\<bar> * 2 powi j" by (simp add: x_def abs_mult)
    also have "\<dots> < 2 ^ 53 * 2 powi j"
    proof -
      have "real_of_int \<bar>m\<bar> < real_of_int (2 ^ 53)" using assms(1) by (simp only: of_int_less_iff)
      then show ?thesis by (intro mult_strict_right_mono) simp_all
    qed
    also have "\<dots> = 2 powi (53 + j)" by (simp add: p2_add)
    finally have "52 + e < 53 + j" by (simp only: p2_less_iff)
    then show ?thesis by simp
  qed
  have "2 powi j = of_int (2 ^ nat (j - e)) * (2::real) powi e"
  proof -
    have "(2::real) powi j = 2 powi (j - e) * 2 powi e" by (simp flip: p2_add)
    then show ?thesis using le by (simp add: p2_nat)
  qed
  then have x1: "x = of_int m * (of_int (2 ^ nat (j - e)) * (2::real) powi e)"
    by (simp only: x_def)
  have x2: "of_int m * (of_int (2 ^ nat (j - e)) * (2::real) powi e)
      = of_int (m * 2 ^ nat (j - e)) * quantum x"
    by (simp only: e(1) of_int_mult mult.assoc)
  have "x = of_int (m * 2 ^ nat (j - e)) * quantum x"
    by (rule trans [OF x1 x2])
  then have "toFloat64 x = x" by (rule toFloat64_multiple)
  then show ?thesis by (simp add: x_def)
qed

lemma toFloat64_of_int:
  assumes "\<bar>m\<bar> < 2 ^ 53"
  shows "toFloat64 (of_int m) = of_int m"
  using toFloat64_exact [OF assms, of 0] by simp

lemma toFloat64_p2:
  assumes "- 1074 \<le> j"
  shows "toFloat64 (2 powi j) = 2 powi j" "toFloat64 (- (2 powi j)) = - (2 powi j)"
  using toFloat64_exact [of 1 j] toFloat64_exact [of "- 1" j] assms by simp_all

text \<open>Rounding keeps the order.\<close>

lemma toFloat64_le_multiple:
  assumes "x \<le> of_int k * quantum x"
  shows "toFloat64 x \<le> of_int k * quantum x"
proof -
  have "x / quantum x \<le> of_int k" using assms by (simp add: field_simps)
  then have "round_half_even (x / quantum x) \<le> round_half_even (of_int k)"
    by (rule round_half_even_mono)
  then have "real_of_int (round_half_even (x / quantum x)) \<le> of_int k" by simp
  then show ?thesis
    unfolding toFloat64_quantum by (intro mult_right_mono) simp_all
qed

lemma toFloat64_ge_multiple:
  assumes "of_int k * quantum x \<le> x"
  shows "of_int k * quantum x \<le> toFloat64 x"
proof -
  have "of_int k \<le> x / quantum x" using assms by (simp add: field_simps)
  then have "round_half_even (of_int k) \<le> round_half_even (x / quantum x)"
    by (rule round_half_even_mono)
  then have "of_int k \<le> real_of_int (round_half_even (x / quantum x))" by simp
  then show ?thesis
    unfolding toFloat64_quantum by (intro mult_right_mono) simp_all
qed

lemma toFloat64_nonneg: "0 \<le> x \<Longrightarrow> 0 \<le> toFloat64 x"
  using toFloat64_ge_multiple [of 0 x] by simp

lemma toFloat64_nonpos: "x \<le> 0 \<Longrightarrow> toFloat64 x \<le> 0"
  using toFloat64_le_multiple [of x 0] by simp

lemma toFloat64_mono:
  assumes "x \<le> y" and "\<bar>x\<bar> < 2 powi 1024" and "\<bar>y\<bar> < 2 powi 1024"
  shows "toFloat64 x \<le> toFloat64 y"
proof (cases "quantum x = quantum y")
  case True
  have "x / quantum y \<le> y / quantum y" using assms(1) by (simp add: divide_right_mono)
  then have "round_half_even (x / quantum y) \<le> round_half_even (y / quantum y)"
    by (rule round_half_even_mono)
  then have "real_of_int (round_half_even (x / quantum y)) * quantum y
      \<le> real_of_int (round_half_even (y / quantum y)) * quantum y"
    by (intro mult_right_mono) simp_all
  then show ?thesis by (simp add: toFloat64_quantum True)
next
  case False
  show ?thesis
  proof (cases "x \<le> 0 \<and> 0 \<le> y")
    case True
    then show ?thesis using toFloat64_nonneg [of y] toFloat64_nonpos [of x] by linarith
  next
    case sign: False
    obtain ex where ex: "quantum x = 2 powi ex" "- 1074 \<le> ex" by (rule quantum_cases)
    obtain ey where ey: "quantum y = 2 powi ey" "- 1074 \<le> ey" by (rule quantum_cases)
    have ne: "ex \<noteq> ey" using False ex(1) ey(1) by auto
    have m1074: "quantum z = 2 powi (- 1074) \<longleftrightarrow> e = - 1074" if "quantum z = 2 powi e" for z e
      using that p2_le_iff [of e "- 1074"] p2_le_iff [of "- 1074" e] by auto
    show ?thesis
    proof (cases "0 < x")
      case True
      then have y0: "0 < y" using assms(1) by simp
      have lt: "ex < ey"
      proof (rule ccontr)
        assume "\<not> ex < ey"
        then have g: "ey < ex" using ne by simp
        then have "quantum x \<noteq> 2 powi (- 1074)" using m1074 [OF ex(1)] ey(2) by simp
        then have "2 powi 52 * quantum x \<le> \<bar>x\<bar>" using quantum_low [of x] by blast
        also have "\<bar>x\<bar> \<le> \<bar>y\<bar>" using True assms(1) by simp
        also have "\<bar>y\<bar> < 2 powi 53 * quantum y" by (rule quantum_top [OF assms(3)])
        finally have "(2::real) powi (52 + ex) < 2 powi (53 + ey)" by (simp add: ex(1) ey(1) p2_add)
        then show False using g by (simp add: p2_less_iff)
      qed
      have "x \<le> of_int (2 ^ 53) * quantum x"
        using quantum_top [OF assms(2)] True by simp
      then have "toFloat64 x \<le> of_int (2 ^ 53) * quantum x" by (rule toFloat64_le_multiple)
      also have "\<dots> = 2 powi (53 + ex)" by (simp add: ex(1) p2_add)
      also have "\<dots> \<le> 2 powi (52 + ey)" using lt by (simp add: p2_le_iff)
      also have "\<dots> = of_int (2 ^ 52) * quantum y" by (simp add: ey(1) p2_add)
      also have "\<dots> \<le> toFloat64 y"
      proof (rule toFloat64_ge_multiple)
        have "quantum y \<noteq> 2 powi (- 1074)" using m1074 [OF ey(1)] ex(2) lt by simp
        then have "2 powi 52 * quantum y \<le> \<bar>y\<bar>" using quantum_low [of y] by blast
        then show "of_int (2 ^ 52) * quantum y \<le> y" using y0 by simp
      qed
      finally show ?thesis .
    next
      case False
      then have x0: "x < 0" and y0: "y < 0" using sign assms(1) by auto
      have lt: "ey < ex"
      proof (rule ccontr)
        assume "\<not> ey < ex"
        then have g: "ex < ey" using ne by simp
        then have "quantum y \<noteq> 2 powi (- 1074)" using m1074 [OF ey(1)] ex(2) by simp
        then have "2 powi 52 * quantum y \<le> \<bar>y\<bar>" using quantum_low [of y] by blast
        also have "\<bar>y\<bar> \<le> \<bar>x\<bar>" using x0 y0 assms(1) by simp
        also have "\<bar>x\<bar> < 2 powi 53 * quantum x" by (rule quantum_top [OF assms(2)])
        finally have "(2::real) powi (52 + ey) < 2 powi (53 + ex)" by (simp add: ex(1) ey(1) p2_add)
        then show False using g by (simp add: p2_less_iff)
      qed
      have "toFloat64 x \<le> of_int (- (2 ^ 52)) * quantum x"
      proof (rule toFloat64_le_multiple)
        have "quantum x \<noteq> 2 powi (- 1074)" using m1074 [OF ex(1)] ey(2) lt by simp
        then have "2 powi 52 * quantum x \<le> \<bar>x\<bar>" using quantum_low [of x] by blast
        then show "x \<le> of_int (- (2 ^ 52)) * quantum x" using x0 by simp
      qed
      also have "\<dots> = - (2 powi (52 + ex))" by (simp add: ex(1) p2_add)
      also have "\<dots> \<le> - (2 powi (53 + ey))" using lt by (simp add: p2_le_iff)
      also have "\<dots> = of_int (- (2 ^ 53)) * quantum y" by (simp add: ey(1) p2_add)
      also have "\<dots> \<le> toFloat64 y"
      proof (rule toFloat64_ge_multiple)
        show "of_int (- (2 ^ 53)) * quantum y \<le> y"
          using quantum_top [OF assms(3)] y0 by simp
      qed
      finally show ?thesis .
    qed
  qed
qed

lemma toFloat64_idem:
  assumes "\<bar>x\<bar> < 2 powi 1024"
  shows "toFloat64 (toFloat64 x) = toFloat64 x"
proof -
  obtain e where e: "quantum x = 2 powi e" "- 1074 \<le> e" by (rule quantum_cases)
  define k where "k = round_half_even (x / quantum x)"
  have fx: "toFloat64 x = of_int k * 2 powi e" by (simp add: toFloat64_quantum k_def e(1))
  have top: "\<bar>x\<bar> < 2 powi 53 * quantum x" by (rule quantum_top [OF assms])
  have "toFloat64 x \<le> of_int (2 ^ 53) * quantum x"
    by (rule toFloat64_le_multiple) (use top in simp)
  then have "of_int k * quantum x \<le> of_int (2 ^ 53) * quantum x" by (simp add: fx e(1))
  then have k1: "k \<le> 2 ^ 53"
    by (simp only: mult_le_cancel_right_pos [OF quantum_pos] of_int_le_iff)
  have "of_int (- (2 ^ 53)) * quantum x \<le> toFloat64 x"
    by (rule toFloat64_ge_multiple) (use top in simp)
  then have "of_int (- (2 ^ 53)) * quantum x \<le> of_int k * quantum x" by (simp add: fx e(1))
  then have k2: "- (2 ^ 53) \<le> k"
    by (simp only: mult_le_cancel_right_pos [OF quantum_pos] of_int_le_iff)
  consider "\<bar>k\<bar> < 2 ^ 53" | "k = 2 ^ 53" | "k = - (2 ^ 53)" using k1 k2 by linarith
  then show ?thesis
  proof cases
    case 1
    then show ?thesis unfolding fx by (rule toFloat64_exact [OF _ e(2)])
  next
    case 2
    have "toFloat64 x = 2 powi (53 + e)" by (simp add: fx 2 p2_add)
    moreover have "- 1074 \<le> 53 + e" using e(2) by simp
    ultimately show ?thesis using toFloat64_p2(1) by simp
  next
    case 3
    have "toFloat64 x = - (2 powi (53 + e))" by (simp add: fx 3 p2_add)
    moreover have "- 1074 \<le> 53 + e" using e(2) by simp
    ultimately show ?thesis using toFloat64_p2(2) by simp
  qed
qed

lemma toFloat64_abs_le:
  assumes "\<bar>x\<bar> \<le> of_int m" and "\<bar>m\<bar> < 2 ^ 53"
  shows "\<bar>toFloat64 x\<bar> \<le> of_int m"
proof -
  have m: "(0::real) \<le> of_int m" using assms(1) by linarith
  have big: "real_of_int m < 2 powi 1024"
  proof -
    have "real_of_int m < real_of_int (2 ^ 53)" using assms(2) by simp
    also have "\<dots> = 2 powi 53" by simp
    also have "\<dots> < 2 powi 1024" by (simp only: p2_less_iff)
    finally show ?thesis .
  qed
  have x: "\<bar>x\<bar> < 2 powi 1024" using assms(1) big by linarith
  have mm: "\<bar>real_of_int m\<bar> < 2 powi 1024" "\<bar>- real_of_int m\<bar> < 2 powi 1024" using big m by simp_all
  have "toFloat64 x \<le> toFloat64 (of_int m)"
    by (rule toFloat64_mono [OF _ x mm(1)]) (use assms(1) in linarith)
  moreover have "toFloat64 (of_int (- m)) \<le> toFloat64 x"
    using toFloat64_mono [OF _ mm(2) x] assms(1) by simp
  moreover have "toFloat64 (of_int m) = of_int m" by (rule toFloat64_of_int [OF assms(2)])
  moreover have "toFloat64 (of_int (- m)) = of_int (- m)"
    by (rule toFloat64_of_int) (use assms(2) in simp)
  ultimately show ?thesis by simp
qed

lemma toFloat64_half_diff:
  assumes "0 \<le> D" and "D < 2 powi 1024"
  shows "toFloat64 (toFloat64 D / 2) \<le> D"
proof -
  obtain e where e: "quantum D = 2 powi e" "- 1074 \<le> e" by (rule quantum_cases)
  define k where "k = \<lfloor>D / quantum D\<rfloor>"
  have k0: "0 \<le> k" using assms(1) by (simp add: k_def)
  have kq: "of_int k * quantum D \<le> D"
  proof -
    have "of_int k \<le> D / quantum D" by (simp add: k_def)
    then show ?thesis by (simp add: field_simps)
  qed
  have D1: "D < of_int (k + 1) * quantum D"
  proof -
    have "D / quantum D < of_int (k + 1)" unfolding k_def by linarith
    then show ?thesis by (simp add: field_simps)
  qed
  have absD: "\<bar>D\<bar> < 2 powi 1024" using assms by simp
  have top: "D < 2 powi 53 * quantum D" using quantum_top [OF absD] assms(1) by simp
  have g: "toFloat64 D \<le> of_int (k + 1) * quantum D"
    by (rule toFloat64_le_multiple) (use D1 in simp)
  have g0: "0 \<le> toFloat64 D" by (rule toFloat64_nonneg [OF assms(1)])
  show ?thesis
  proof (cases "1 \<le> k")
    case True
    have "of_int k * quantum D < 2 powi 53 * quantum D" using kq top by linarith
    then have "real_of_int k < real_of_int (2 ^ 53)"
      by (simp only: mult_less_cancel_right_pos [OF quantum_pos]) simp
    then have k53: "\<bar>k\<bar> < 2 ^ 53" using k0 by simp
    have r: "toFloat64 (of_int k * quantum D) = of_int k * quantum D"
      unfolding e(1) by (rule toFloat64_exact [OF k53 e(2)])
    define a where "a = real_of_int (k + 1) * quantum D"
    define b where "b = real_of_int k * quantum D"
    have "real_of_int (k + 1) \<le> 2 * of_int k" using True by simp
    from mult_right_mono [OF this quantum_nonneg [of D]]
    have "a \<le> 2 * b" by (simp add: a_def b_def)
    moreover have "toFloat64 D \<le> a" using g by (simp only: a_def)
    ultimately have "toFloat64 D / 2 \<le> b" by linarith
    then have h: "toFloat64 D / 2 \<le> of_int k * quantum D" by (simp only: b_def)
    have b1: "\<bar>toFloat64 D / 2\<bar> < 2 powi 1024"
      using h g0 kq assms(2) by simp
    have b2: "\<bar>of_int k * quantum D\<bar> < 2 powi 1024"
      using kq k0 assms(2) by (simp add: abs_mult)
    have "toFloat64 (toFloat64 D / 2) \<le> toFloat64 (of_int k * quantum D)"
      by (rule toFloat64_mono [OF h b1 b2])
    then show ?thesis using r kq by simp
  next
    case False
    then have kz: "k = 0" using k0 by simp
    have Dq: "D < quantum D" using D1 by (simp add: kz)
    have e1074: "e = - 1074"
    proof (rule ccontr)
      assume n: "e \<noteq> - 1074"
      have "quantum D \<noteq> 2 powi (- 1074)"
      proof
        assume "quantum D = 2 powi (- 1074)"
        then have "(2::real) powi e = 2 powi (- 1074)" by (simp only: e(1))
        then have "e \<le> - 1074 \<and> - 1074 \<le> e" by (simp only: p2_le_iff [symmetric]) simp
        then show False using n by simp
      qed
      then have "2 powi 52 * quantum D \<le> \<bar>D\<bar>" using quantum_low [of D] by blast
      moreover have "1 * quantum D \<le> 2 powi 52 * quantum D"
        by (intro mult_right_mono) simp_all
      ultimately show False using Dq assms(1) by simp
    qed
    have gq: "toFloat64 D \<le> 2 powi (- 1074)" using g by (simp only: kz e(1) e1074) simp
    have half: "toFloat64 D / 2 \<le> 2 powi (- 1075)"
    proof -
      have "(2::real) powi (- 1074) / 2 = 2 powi (- 1074 - 1)" by (simp only: p2_diff) simp
      then show ?thesis using gq by simp
    qed
    have s: "\<bar>2 powi (- 1075) :: real\<bar> < 2 powi 1024"
      by (simp only: abs_of_pos [OF p2_pos] p2_less_iff)
    have b1: "\<bar>toFloat64 D / 2\<bar> < 2 powi 1024" using half g0 s by simp
    have "toFloat64 (toFloat64 D / 2) \<le> toFloat64 (2 powi (- 1075))"
      by (rule toFloat64_mono [OF half b1 s])
    moreover have "toFloat64 (2 powi (- 1075)) = 0"
    proof -
      have "float64_exponent \<bar>2 powi (- 1075)\<bar> = - 1022"
      proof (rule ccontr)
        assume "float64_exponent \<bar>2 powi (- 1075)\<bar> \<noteq> - 1022"
        then have "2 powi (float64_exponent \<bar>2 powi (- 1075)\<bar>) \<le> \<bar>2 powi (- 1075) :: real\<bar>"
          using float64_exponent_low [of "\<bar>2 powi (- 1075)\<bar>"] by blast
        then have "float64_exponent \<bar>2 powi (- 1075)\<bar> \<le> - 1075"
          by (simp only: abs_of_pos [OF p2_pos] p2_le_iff)
        then show False using float64_exponent_range(1) [of "\<bar>2 powi (- 1075)\<bar>"] by simp
      qed
      then have q: "quantum (2 powi (- 1075)) = 2 powi (- 1074)" by (simp add: quantum_def)
      have "(2::real) powi (- 1075) / 2 powi (- 1074) = 2 powi (- 1075 - (- 1074))"
        by (simp only: p2_diff)
      also have "\<dots> = 1 / 2" by simp
      finally have d: "(2::real) powi (- 1075) / 2 powi (- 1074) = 1 / 2" .
      have "round_half_even (1 / 2) = 0" by (simp add: round_half_even_def)
      then show ?thesis by (simp only: toFloat64_quantum q d of_int_0 mult_zero_left)
    qed
    ultimately show ?thesis using assms(1) by simp
  qed
qed

lemma toFloat64_error_lin: "\<bar>toFloat64 x - x\<bar> \<le> 12 / 10 ^ 17 * \<bar>x\<bar> + 1 / 10 ^ 17"
proof -
  have a: "(2::real) powi (- 53) \<le> 12 / 10 ^ 17"
    by (simp add: power_int_minus field_simps)
  have "(2::real) powi (- 1075) \<le> 2 powi (- 57)" by (simp only: p2_le_iff)
  also have "\<dots> \<le> 1 / 10 ^ 17" by (simp add: power_int_minus field_simps)
  finally have b: "(2::real) powi (- 1075) \<le> 1 / 10 ^ 17" .
  have "2 powi (- 53) * \<bar>x\<bar> \<le> 12 / 10 ^ 17 * \<bar>x\<bar>"
    using a by (intro mult_right_mono) simp_all
  then show ?thesis
    using toFloat64_error [of x] b by linarith
qed

lemma small_is_finite:
  assumes "\<bar>x\<bar> \<le> 2 ^ 60"
  shows "\<bar>x :: real\<bar> < 2 powi 1024"
proof -
  have "(2::real) ^ 60 = 2 powi 60" by simp
  also have "\<dots> < 2 powi 1024" by (simp only: p2_less_iff)
  finally show ?thesis using assms by linarith
qed

lemma midpoint_between:
  assumes "toFloat64 low = low" and "toFloat64 high = high" and "low \<le> high"
    and "\<bar>low\<bar> \<le> 2 ^ 53" and "\<bar>high\<bar> \<le> 2 ^ 53"
  shows "low \<le> midpoint low high" and "midpoint low high \<le> high"
    and "toFloat64 (midpoint low high) = midpoint low high"
proof -
  define D where "D = high - low"
  define h where "h = toFloat64 (toFloat64 D / 2)"
  have m: "midpoint low high = toFloat64 (low + h)"
    by (simp add: midpoint_def js_add_def js_div_def js_sub_def h_def D_def)
  have D0: "0 \<le> D" using assms(3) by (simp add: D_def)
  have "\<bar>D\<bar> \<le> 2 ^ 60" using assms(4,5) by (simp add: D_def)
  then have Dfin: "D < 2 powi 1024" using small_is_finite [of D] by linarith
  have h1: "h \<le> D" unfolding h_def by (rule toFloat64_half_diff [OF D0 Dfin])
  have h0: "0 \<le> h" unfolding h_def
    by (intro toFloat64_nonneg divide_nonneg_nonneg D0) simp
  have fin: "\<bar>low + h\<bar> < 2 powi 1024" "\<bar>low\<bar> < 2 powi 1024" "\<bar>high\<bar> < 2 powi 1024"
    by (rule small_is_finite; use assms(4,5) h0 h1 in \<open>simp add: D_def\<close>)+
  have "toFloat64 low \<le> toFloat64 (low + h)"
    by (rule toFloat64_mono [OF _ fin(2,1)]) (use h0 in simp)
  then show "low \<le> midpoint low high" by (simp add: m assms(1))
  have "toFloat64 (low + h) \<le> toFloat64 high"
    by (rule toFloat64_mono [OF _ fin(1,3)]) (use h1 in \<open>simp add: D_def\<close>)
  then show "midpoint low high \<le> high" by (simp add: m assms(2))
  show "toFloat64 (midpoint low high) = midpoint low high"
    unfolding m by (rule toFloat64_idem [OF fin(1)])
qed

lemma midpoint_error:
  assumes "toFloat64 low = low" and "toFloat64 high = high" and "low \<le> high"
    and "\<bar>low\<bar> \<le> B" and "\<bar>high\<bar> \<le> B" and "B \<le> 2 ^ 53"
  shows "\<bar>midpoint low high - (low + (high - low) / 2)\<bar> \<le> (B + 1) / (2 * 10 ^ 15)"
proof -
  define D where "D = high - low"
  define g where "g = toFloat64 D"
  define h where "h = toFloat64 (g / 2)"
  have m: "midpoint low high = toFloat64 (low + h)"
    by (simp add: midpoint_def js_add_def js_div_def js_sub_def h_def g_def D_def)
  have D0: "0 \<le> D" using assms(3) by (simp add: D_def)
  have DB: "D \<le> 2 * B" using assms(4,5) by (simp add: D_def)
  have "\<bar>D\<bar> \<le> 2 ^ 60" using DB D0 assms(6) by simp
  then have Dfin: "D < 2 powi 1024" using small_is_finite [of D] by linarith
  have h1: "h \<le> D" unfolding h_def g_def by (rule toFloat64_half_diff [OF D0 Dfin])
  have g0: "0 \<le> g" unfolding g_def by (rule toFloat64_nonneg [OF D0])
  have h0: "0 \<le> h" unfolding h_def
    by (intro toFloat64_nonneg divide_nonneg_nonneg g0) simp
  define c :: real where "c = 12 / 10 ^ 17"
  define c' :: real where "c' = 1 / 10 ^ 17"
  have B0: "0 \<le> B" using assms(4) by linarith
  have e1: "\<bar>g - D\<bar> \<le> c * D + c'"
    using toFloat64_error_lin [of D] D0 by (simp add: g_def c_def c'_def)
  have e2: "\<bar>h - g / 2\<bar> \<le> c * (g / 2) + c'"
    using toFloat64_error_lin [of "g / 2"] g0 by (simp add: h_def c_def c'_def)
  have lh: "\<bar>low + h\<bar> \<le> B" using h0 h1 assms(4,5) by (simp add: D_def)
  have "c * \<bar>low + h\<bar> \<le> c * B" using lh by (intro mult_left_mono) (simp_all add: c_def)
  then have e3: "\<bar>toFloat64 (low + h) - (low + h)\<bar> \<le> c * B + c'"
    using toFloat64_error_lin [of "low + h"] by (simp add: c_def c'_def)
  have cD: "c * D \<le> c * (2 * B)" using DB by (intro mult_left_mono) (simp_all add: c_def)
  have g2: "g \<le> 3 * B + 1"
  proof -
    have "c * (2 * B) \<le> 1 * B" using B0 by (simp add: c_def)
    then show ?thesis using e1 cD DB by (simp add: c'_def)
  qed
  have cg: "c * (g / 2) \<le> c * ((3 * B + 1) / 2)"
    using g2 by (intro mult_left_mono) (simp_all add: c_def)
  define a1 where "a1 = toFloat64 (low + h) - (low + h)"
  define a2 where "a2 = h - g / 2"
  define a3 where "a3 = (g - D) / 2"
  have "toFloat64 (low + h) - (low + D / 2) = a1 + a2 + a3"
    by (simp add: a1_def a2_def a3_def field_simps)
  moreover have "\<bar>a1 + a2 + a3\<bar> \<le> \<bar>a1\<bar> + \<bar>a2\<bar> + \<bar>a3\<bar>" by linarith
  ultimately have "\<bar>toFloat64 (low + h) - (low + D / 2)\<bar>
      \<le> \<bar>toFloat64 (low + h) - (low + h)\<bar> + \<bar>h - g / 2\<bar> + \<bar>g - D\<bar> / 2"
    by (simp add: a1_def a2_def a3_def)
  also have "\<dots> \<le> (c * B + c') + (c * ((3 * B + 1) / 2) + c') + (c * (2 * B) + c') / 2"
    by (intro add_mono e3 divide_right_mono
          order_trans [OF e2 add_right_mono [OF cg]] order_trans [OF e1 add_right_mono [OF cD]])
       simp
  also have "\<dots> \<le> (B + 1) / (2 * 10 ^ 15)"
    using B0 by (simp add: c_def c'_def field_simps)
  finally show ?thesis
    unfolding m D_def .
qed

section \<open>The bisection of findTopoTime\<close>

lemma toFloat64_numeral:
  assumes "(numeral n :: int) < 2 ^ 53"
  shows "toFloat64 (numeral n) = numeral n"
proof -
  have "\<bar>numeral n :: int\<bar> < 2 ^ 53" using assms by simp
  from toFloat64_of_int [OF this] show ?thesis by simp
qed

lemma new_Date_of_int [simp]: "new_Date (of_int n) = n"
  by (simp add: new_Date_def)

lemma new_Date_between:
  assumes "of_int a \<le> t" "t \<le> of_int b"
  shows "a \<le> new_Date t \<and> new_Date t \<le> b"
  using assms unfolding new_Date_def by (auto simp: le_floor_iff ceiling_le_iff) linarith+

lemma new_Date_error: "\<bar>of_int (new_Date t) - t\<bar> < 1"
  unfolding new_Date_def by (auto; linarith)

lemma nextBounds_midpoint:
  "nextBounds ffl lit low high best =
     (if ffl
      then (if lit then (low, midpoint low high, midpoint low high) else (midpoint low high, high, best))
      else (if lit then (midpoint low high, high, midpoint low high) else (low, midpoint low high, best)))"
  by (simp add: nextBounds_def midpoint_def Let_def)

lemma bisect_unfold:
  "i < 15 \<Longrightarrow>
   bisect f ffl i low high best =
     (case nextBounds ffl (isLit (f (new_Date (midpoint low high)))) low high best of
        (low', high', best') \<Rightarrow>
          (fst (bisect f ffl (Suc i) low' high' best'),
           new_Date (midpoint low high) # snd (bisect f ffl (Suc i) low' high' best')))"
  by (subst bisect.simps) (simp add: Let_def nextBounds_def midpoint_def split: prod.splits)

lemma bisect_stop: "\<not> i < 15 \<Longrightarrow> bisect f ffl i low high best = (best, [])"
  by (subst bisect.simps) simp

lemma bisect_queries: "length (snd (bisect f ffl i low high best)) = 15 - i"
proof (induction "15 - i" arbitrary: i low high best)
  case 0
  then show ?case by (simp add: bisect_stop)
next
  case (Suc n)
  then have i: "i < 15" and n: "n = 15 - Suc i" by auto
  show ?case
    using Suc.hyps(1) [OF n] i
    by (auto simp: bisect_unfold split: prod.splits)
qed

lemma bracket_abs:
  assumes "bracket a b low high" and "\<bar>a\<bar> \<le> 8640000000000000" and "\<bar>b\<bar> \<le> 8640000000000000"
  shows "\<bar>low\<bar> \<le> of_int (max \<bar>a\<bar> \<bar>b\<bar>)" "\<bar>high\<bar> \<le> of_int (max \<bar>a\<bar> \<bar>b\<bar>)"
    "real_of_int (max \<bar>a\<bar> \<bar>b\<bar>) \<le> 2 ^ 53" "\<bar>low\<bar> \<le> 2 ^ 53" "\<bar>high\<bar> \<le> 2 ^ 53"
proof -
  have l: "of_int a \<le> low" "low \<le> of_int b" "of_int a \<le> high" "high \<le> of_int b"
    using assms(1) by (auto simp: bracket_def)
  have ia: "- (max \<bar>a\<bar> \<bar>b\<bar>) \<le> a" "b \<le> max \<bar>a\<bar> \<bar>b\<bar>" by linarith+
  have "real_of_int (- (max \<bar>a\<bar> \<bar>b\<bar>)) \<le> of_int a" using ia(1) by (simp only: of_int_le_iff)
  moreover have "real_of_int b \<le> of_int (max \<bar>a\<bar> \<bar>b\<bar>)" using ia(2) by (simp only: of_int_le_iff)
  ultimately have "- real_of_int (max \<bar>a\<bar> \<bar>b\<bar>) \<le> of_int a" "real_of_int b \<le> of_int (max \<bar>a\<bar> \<bar>b\<bar>)"
    by simp_all
  then show m: "\<bar>low\<bar> \<le> of_int (max \<bar>a\<bar> \<bar>b\<bar>)" "\<bar>high\<bar> \<le> of_int (max \<bar>a\<bar> \<bar>b\<bar>)"
    using l by linarith+
  have "max \<bar>a\<bar> \<bar>b\<bar> \<le> 2 ^ 53" using assms(2,3) by simp
  then have "real_of_int (max \<bar>a\<bar> \<bar>b\<bar>) \<le> real_of_int (2 ^ 53)" by (simp only: of_int_le_iff)
  then show b: "real_of_int (max \<bar>a\<bar> \<bar>b\<bar>) \<le> 2 ^ 53" by simp
  show "\<bar>low\<bar> \<le> 2 ^ 53" "\<bar>high\<bar> \<le> 2 ^ 53" using m b by linarith+
qed

lemma bracket_midpoint:
  assumes "bracket a b low high" and "\<bar>a\<bar> \<le> 8640000000000000" and "\<bar>b\<bar> \<le> 8640000000000000"
  shows "bracket a b low (midpoint low high)" "bracket a b (midpoint low high) high"
    "low \<le> midpoint low high" "midpoint low high \<le> high"
proof -
  note abs = bracket_abs [OF assms]
  have d: "toFloat64 low = low" "toFloat64 high = high" "low \<le> high"
    using assms(1) by (auto simp: bracket_def)
  note m = midpoint_between [OF d abs(4,5)]
  show "low \<le> midpoint low high" "midpoint low high \<le> high" by (rule m)+
  show "bracket a b low (midpoint low high)" "bracket a b (midpoint low high) high"
    using assms(1) m by (auto simp: bracket_def)
qed

lemma bracket_nextBounds:
  assumes "bracket a b low high" and "\<bar>a\<bar> \<le> 8640000000000000" and "\<bar>b\<bar> \<le> 8640000000000000"
    and "nextBounds ffl lit low high best = (low', high', best')"
  shows "bracket a b low' high'"
  using bracket_midpoint(1,2) [OF assms(1,2,3)] assms(1,4)
  by (auto simp: nextBounds_midpoint split: if_splits)

lemma bisect_queries_between:
  assumes "bracket a b low high" and "\<bar>a\<bar> \<le> 8640000000000000" and "\<bar>b\<bar> \<le> 8640000000000000"
  shows "\<forall>d \<in> set (snd (bisect f ffl i low high best)). a \<le> d \<and> d \<le> b"
  using assms(1)
proof (induction "15 - i" arbitrary: i low high best)
  case 0
  then show ?case by (simp add: bisect_stop)
next
  case (Suc n)
  then have i: "i < 15" and n: "n = 15 - Suc i" by auto
  note m = bracket_midpoint(3,4) [OF Suc.prems assms(2,3)]
  have l: "of_int a \<le> low" "high \<le> of_int b" using Suc.prems by (auto simp: bracket_def)
  have d: "a \<le> new_Date (midpoint low high) \<and> new_Date (midpoint low high) \<le> b"
    using m l by (intro new_Date_between) linarith+
  obtain low' high' best' where
    nb: "nextBounds ffl (isLit (f (new_Date (midpoint low high)))) low high best = (low', high', best')"
    by (metis prod_cases3)
  have b: "bracket a b low' high'"
    by (rule bracket_nextBounds [OF Suc.prems assms(2,3) nb])
  show ?case
    using Suc.hyps(1) [OF n b] i d nb
    by (simp add: bisect_unfold)
qed

lemma bisect_dark:
  assumes "\<forall>d \<in> set (snd (bisect f ffl i low high best)). \<not> isLit (f d)"
  shows "fst (bisect f ffl i low high best) = best"
  using assms
proof (induction "15 - i" arbitrary: i low high best)
  case 0
  then show ?case by (simp add: bisect_stop)
next
  case (Suc n)
  then have i: "i < 15" and n: "n = 15 - Suc i" by auto
  show ?case
    using Suc.hyps(1) [OF n] i Suc.prems
    by (auto simp: bisect_unfold nextBounds_midpoint split: prod.splits if_splits)
qed

lemma halving_step:
  fixes r low mid high E t :: real
  assumes "\<bar>r - (low + (mid - low) * t)\<bar> \<le> E * (1 - t)"
    and "\<bar>mid - (low + (high - low) / 2)\<bar> \<le> E / 2"
    and "0 \<le> t"
  shows "\<bar>r - (low + (high - low) * (t / 2))\<bar> \<le> E * (1 - t / 2)"
proof -
  define x where "x = mid - (low + (high - low) / 2)"
  have "\<bar>x\<bar> * t \<le> E / 2 * t"
    using assms(2,3) by (intro mult_right_mono) (simp_all add: x_def)
  then have xt: "\<bar>x * t\<bar> \<le> E / 2 * t" using assms(3) by (simp add: abs_mult)
  have "r - (low + (high - low) * (t / 2)) = (r - (low + (mid - low) * t)) + x * t"
    by (simp add: x_def algebra_simps)
  then have "\<bar>r - (low + (high - low) * (t / 2))\<bar> \<le> \<bar>r - (low + (mid - low) * t)\<bar> + \<bar>x * t\<bar>"
    by (simp only: abs_triangle_ineq)
  also have "\<dots> \<le> E * (1 - t) + E / 2 * t" by (intro add_mono assms(1) xt)
  also have "\<dots> = E * (1 - t / 2)" by (simp add: algebra_simps)
  finally show ?thesis .
qed

lemma halving_step':
  fixes r low mid high E t :: real
  assumes "\<bar>r - (high - (high - mid) * t)\<bar> \<le> E * (1 - t)"
    and "\<bar>mid - (low + (high - low) / 2)\<bar> \<le> E / 2"
    and "0 \<le> t"
  shows "\<bar>r - (high - (high - low) * (t / 2))\<bar> \<le> E * (1 - t / 2)"
proof -
  define x where "x = mid - (low + (high - low) / 2)"
  have "\<bar>x\<bar> * t \<le> E / 2 * t"
    using assms(2,3) by (intro mult_right_mono) (simp_all add: x_def)
  then have xt: "\<bar>x * t\<bar> \<le> E / 2 * t" using assms(3) by (simp add: abs_mult)
  have "r - (high - (high - low) * (t / 2)) = (r - (high - (high - mid) * t)) + x * t"
    by (simp add: x_def algebra_simps)
  then have "\<bar>r - (high - (high - low) * (t / 2))\<bar> \<le> \<bar>r - (high - (high - mid) * t)\<bar> + \<bar>x * t\<bar>"
    by (simp only: abs_triangle_ineq)
  also have "\<dots> \<le> E * (1 - t) + E / 2 * t" by (intro add_mono assms(1) xt)
  also have "\<dots> = E * (1 - t / 2)" by (simp add: algebra_simps)
  finally show ?thesis .
qed

lemma bisect_lit_first:
  assumes "bracket a b low high" and "\<bar>a\<bar> \<le> 8640000000000000" and "\<bar>b\<bar> \<le> 8640000000000000"
    and "\<forall>d \<in> set (snd (bisect f True i low high best)). isLit (f d)" and "i < 15"
  shows "low \<le> fst (bisect f True i low high best)
       \<and> fst (bisect f True i low high best) \<le> high
       \<and> \<bar>fst (bisect f True i low high best) - (low + (high - low) * (1 / 2 ^ (15 - i)))\<bar>
           \<le> (of_int (max \<bar>a\<bar> \<bar>b\<bar>) + 1) / 10 ^ 15 * (1 - 1 / 2 ^ (15 - i))"
  using assms(1,4,5)
proof (induction "15 - i" arbitrary: i high best)
  case 0
  then show ?case by simp
next
  case (Suc n)
  then have i: "i < 15" and n: "n = 15 - Suc i" by auto
  define mid where "mid = midpoint low high"
  define E where "E = (real_of_int (max \<bar>a\<bar> \<bar>b\<bar>) + 1) / 10 ^ 15"
  note abs = bracket_abs [OF Suc.prems(1) assms(2,3)]
  note bm = bracket_midpoint [OF Suc.prems(1) assms(2,3), folded mid_def]
  have d: "toFloat64 low = low" "toFloat64 high = high" "low \<le> high"
    using Suc.prems(1) by (auto simp: bracket_def)
  have me: "\<bar>mid - (low + (high - low) / 2)\<bar> \<le> E / 2"
    using midpoint_error [OF d abs(1,2,3)] by (simp add: mid_def E_def)
  have lit: "isLit (f (new_Date mid))"
    using Suc.prems(2) i by (simp add: bisect_unfold mid_def split: prod.splits)
  have rest: "\<forall>d \<in> set (snd (bisect f True (Suc i) low mid mid)). isLit (f d)"
    using Suc.prems(2) i lit by (simp add: bisect_unfold nextBounds_midpoint mid_def [symmetric])
  have unf: "fst (bisect f True i low high best) = fst (bisect f True (Suc i) low mid mid)"
    using i lit by (simp add: bisect_unfold nextBounds_midpoint mid_def [symmetric])
  show ?case
  proof (cases "Suc i < 15")
    case True
    have p: "15 - i = Suc (15 - Suc i)" using i by simp
    define t :: real where "t = 1 / 2 ^ (15 - Suc i)"
    have t0: "0 \<le> t" by (simp add: t_def)
    have t2: "1 / 2 ^ (15 - i) = t / 2" by (simp add: p t_def)
    note IH = Suc.hyps(1) [OF n bm(1) rest True, folded t_def E_def]
    have "\<bar>fst (bisect f True (Suc i) low mid mid) - (low + (high - low) * (t / 2))\<bar> \<le> E * (1 - t / 2)"
      by (rule halving_step [OF _ me t0]) (use IH in blast)
    then show ?thesis
      unfolding unf t2 E_def [symmetric] using IH bm(4) by linarith
  next
    case False
    then have i14: "i = 14" using i by simp
    have r: "fst (bisect f True (Suc i) low mid mid) = mid" by (simp add: i14 bisect_stop)
    show ?thesis
      unfolding unf r E_def [symmetric] using bm(3,4) me by (simp add: i14)
  qed
qed

lemma bisect_lit_last:
  assumes "bracket a b low high" and "\<bar>a\<bar> \<le> 8640000000000000" and "\<bar>b\<bar> \<le> 8640000000000000"
    and "\<forall>d \<in> set (snd (bisect f False i low high best)). isLit (f d)" and "i < 15"
  shows "low \<le> fst (bisect f False i low high best)
       \<and> fst (bisect f False i low high best) \<le> high
       \<and> \<bar>fst (bisect f False i low high best) - (high - (high - low) * (1 / 2 ^ (15 - i)))\<bar>
           \<le> (of_int (max \<bar>a\<bar> \<bar>b\<bar>) + 1) / 10 ^ 15 * (1 - 1 / 2 ^ (15 - i))"
  using assms(1,4,5)
proof (induction "15 - i" arbitrary: i low best)
  case 0
  then show ?case by simp
next
  case (Suc n)
  then have i: "i < 15" and n: "n = 15 - Suc i" by auto
  define mid where "mid = midpoint low high"
  define E where "E = (real_of_int (max \<bar>a\<bar> \<bar>b\<bar>) + 1) / 10 ^ 15"
  note abs = bracket_abs [OF Suc.prems(1) assms(2,3)]
  note bm = bracket_midpoint [OF Suc.prems(1) assms(2,3), folded mid_def]
  have d: "toFloat64 low = low" "toFloat64 high = high" "low \<le> high"
    using Suc.prems(1) by (auto simp: bracket_def)
  have me: "\<bar>mid - (low + (high - low) / 2)\<bar> \<le> E / 2"
    using midpoint_error [OF d abs(1,2,3)] by (simp add: mid_def E_def)
  have lit: "isLit (f (new_Date mid))"
    using Suc.prems(2) i by (simp add: bisect_unfold mid_def split: prod.splits)
  have rest: "\<forall>d \<in> set (snd (bisect f False (Suc i) mid high mid)). isLit (f d)"
    using Suc.prems(2) i lit by (simp add: bisect_unfold nextBounds_midpoint mid_def [symmetric])
  have unf: "fst (bisect f False i low high best) = fst (bisect f False (Suc i) mid high mid)"
    using i lit by (simp add: bisect_unfold nextBounds_midpoint mid_def [symmetric])
  show ?case
  proof (cases "Suc i < 15")
    case True
    have p: "15 - i = Suc (15 - Suc i)" using i by simp
    define t :: real where "t = 1 / 2 ^ (15 - Suc i)"
    have t0: "0 \<le> t" by (simp add: t_def)
    have t2: "1 / 2 ^ (15 - i) = t / 2" by (simp add: p t_def)
    note IH = Suc.hyps(1) [OF n bm(2) rest True, folded t_def E_def]
    have "\<bar>fst (bisect f False (Suc i) mid high mid) - (high - (high - low) * (t / 2))\<bar> \<le> E * (1 - t / 2)"
      by (rule halving_step' [OF _ me t0]) (use IH in blast)
    then show ?thesis
      unfolding unf t2 E_def [symmetric] using IH bm(3) by linarith
  next
    case False
    then have i14: "i = 14" using i by simp
    have r: "fst (bisect f False (Suc i) mid high mid) = mid" by (simp add: i14 bisect_stop)
    have eq: "high - (high - low) / 2 = low + (high - low) / 2" by (simp add: field_simps)
    show ?thesis
      unfolding unf r E_def [symmetric] using bm(3,4) me by (simp add: i14 eq)
  qed
qed

lemma findTopoTime_eq:
  "findTopoTime f startTime endTime ffl =
     (new_Date (fst (bisect f ffl 0 (of_int startTime) (of_int endTime)
                  (if ffl then of_int endTime else of_int startTime))),
      snd (bisect f ffl 0 (of_int startTime) (of_int endTime)
                  (if ffl then of_int endTime else of_int startTime)))"
  by (simp add: findTopoTime_def Let_def split: prod.splits)

lemma bracket_dates:
  assumes "startTime \<le> endTime"
    and "\<bar>startTime\<bar> \<le> 8640000000000000" and "\<bar>endTime\<bar> \<le> 8640000000000000"
  shows "bracket startTime endTime (of_int startTime) (of_int endTime)"
proof -
  have "toFloat64 (of_int startTime) = of_int startTime" "toFloat64 (of_int endTime) = of_int endTime"
    by (rule toFloat64_of_int; use assms(2,3) in simp)+
  then show ?thesis using assms(1) by (simp add: bracket_def)
qed

text \<open>
  C3 (as amended). For an interval of two dates with \<open>startTime \<le> endTime\<close> (a date is
  a whole number of milliseconds of absolute value at most \<open>8.64e15\<close>) and every
  occlusion test, \<open>findTopoTime\<close> calls the test exactly 15 times, each time at a date
  of the interval, and returns a date. When the test is never lit on the interval, the
  result is an end of the interval: the end when looking for first light, the start when
  looking for last light. When the test is always lit on the interval, the result is a date
  of the interval at \<open>(endTime - startTime) / 2^15\<close> from the start (first light) or from
  the end (last light), up to the fraction that \<open>new Date\<close> drops and the rounding of the
  midpoints: less than \<open>1 + (max |startTime| |endTime| + 1) / 10^15\<close> ms.
\<close>

theorem findTopoTime_bisection:
  assumes "startTime \<le> endTime"
    and "\<bar>startTime\<bar> \<le> 8640000000000000" and "\<bar>endTime\<bar> \<le> 8640000000000000"
  shows "length (snd (findTopoTime f startTime endTime findFirstLight)) = 15
    \<and> (\<forall>d \<in> set (snd (findTopoTime f startTime endTime findFirstLight)). startTime \<le> d \<and> d \<le> endTime)
    \<and> ((\<forall>d. startTime \<le> d \<and> d \<le> endTime \<longrightarrow> \<not> isLit (f d)) \<longrightarrow>
          fst (findTopoTime f startTime endTime findFirstLight)
            = (if findFirstLight then endTime else startTime))
    \<and> ((\<forall>d. startTime \<le> d \<and> d \<le> endTime \<longrightarrow> isLit (f d)) \<longrightarrow>
          startTime \<le> fst (findTopoTime f startTime endTime findFirstLight)
          \<and> fst (findTopoTime f startTime endTime findFirstLight) \<le> endTime
          \<and> \<bar>real_of_int (fst (findTopoTime f startTime endTime findFirstLight))
               - (if findFirstLight
                  then of_int startTime + (of_int endTime - of_int startTime) / 2 ^ 15
                  else of_int endTime - (of_int endTime - of_int startTime) / 2 ^ 15)\<bar>
              < 1 + (of_int (max \<bar>startTime\<bar> \<bar>endTime\<bar>) + 1) / 10 ^ 15)"
proof -
  let ?best = "if findFirstLight then real_of_int endTime else real_of_int startTime"
  let ?b = "bisect f findFirstLight 0 (of_int startTime) (of_int endTime) ?best"
  define E where "E = (real_of_int (max \<bar>startTime\<bar> \<bar>endTime\<bar>) + 1) / 10 ^ 15"
  note br = bracket_dates [OF assms]
  have between: "\<forall>d \<in> set (snd ?b). startTime \<le> d \<and> d \<le> endTime"
    by (rule bisect_queries_between [OF br assms(2,3)])
  have len: "length (snd ?b) = 15" by (simp add: bisect_queries)
  have dark: "fst ?b = ?best" if "\<forall>d. startTime \<le> d \<and> d \<le> endTime \<longrightarrow> \<not> isLit (f d)"
    using that between by (intro bisect_dark) blast
  have E0: "0 \<le> E" by (simp add: E_def)
  have lit: "of_int startTime \<le> fst ?b \<and> fst ?b \<le> of_int endTime
      \<and> \<bar>fst ?b - (if findFirstLight
               then of_int startTime + (of_int endTime - of_int startTime) / 2 ^ 15
               else of_int endTime - (of_int endTime - of_int startTime) / 2 ^ 15)\<bar> \<le> E"
    if "\<forall>d. startTime \<le> d \<and> d \<le> endTime \<longrightarrow> isLit (f d)"
  proof (cases findFirstLight)
    case True
    have "\<forall>d \<in> set (snd (bisect f True 0 (of_int startTime) (of_int endTime) (of_int endTime))). isLit (f d)"
      using that between True by auto
    from bisect_lit_first [OF br assms(2,3) this, folded E_def]
    have "of_int startTime \<le> fst ?b \<and> fst ?b \<le> of_int endTime
      \<and> \<bar>fst ?b - (of_int startTime + (of_int endTime - of_int startTime) * (1 / 2 ^ 15))\<bar>
          \<le> E * (1 - 1 / 2 ^ 15)"
      using True by simp
    moreover have "E * (1 - 1 / 2 ^ 15) \<le> E * 1" using E0 by (intro mult_left_mono) simp_all
    ultimately show ?thesis using True by simp
  next
    case False
    have "\<forall>d \<in> set (snd (bisect f False 0 (of_int startTime) (of_int endTime) (of_int startTime))). isLit (f d)"
      using that between False by auto
    from bisect_lit_last [OF br assms(2,3) this, folded E_def]
    have "of_int startTime \<le> fst ?b \<and> fst ?b \<le> of_int endTime
      \<and> \<bar>fst ?b - (of_int endTime - (of_int endTime - of_int startTime) * (1 / 2 ^ 15))\<bar>
          \<le> E * (1 - 1 / 2 ^ 15)"
      using False by simp
    moreover have "E * (1 - 1 / 2 ^ 15) \<le> E * 1" using E0 by (intro mult_left_mono) simp_all
    ultimately show ?thesis using False by simp
  qed
  have res: "fst (findTopoTime f startTime endTime findFirstLight) = new_Date (fst ?b)"
    and que: "snd (findTopoTime f startTime endTime findFirstLight) = snd ?b"
    by (simp_all add: findTopoTime_eq)
  have c1: "length (snd (findTopoTime f startTime endTime findFirstLight)) = 15"
    unfolding que by (rule len)
  have c2: "\<forall>d \<in> set (snd (findTopoTime f startTime endTime findFirstLight)). startTime \<le> d \<and> d \<le> endTime"
    unfolding que by (rule between)
  have c3: "fst (findTopoTime f startTime endTime findFirstLight) = (if findFirstLight then endTime else startTime)"
    if "\<forall>d. startTime \<le> d \<and> d \<le> endTime \<longrightarrow> \<not> isLit (f d)"
    unfolding res dark [OF that] by simp
  have c4: "startTime \<le> fst (findTopoTime f startTime endTime findFirstLight)
          \<and> fst (findTopoTime f startTime endTime findFirstLight) \<le> endTime
          \<and> \<bar>real_of_int (fst (findTopoTime f startTime endTime findFirstLight))
               - (if findFirstLight
                  then of_int startTime + (of_int endTime - of_int startTime) / 2 ^ 15
                  else of_int endTime - (of_int endTime - of_int startTime) / 2 ^ 15)\<bar>
              < 1 + E"
    if "\<forall>d. startTime \<le> d \<and> d \<le> endTime \<longrightarrow> isLit (f d)"
  proof -
    note l = lit [OF that]
    have "startTime \<le> new_Date (fst ?b) \<and> new_Date (fst ?b) \<le> endTime"
      using l by (intro new_Date_between) simp_all
    moreover have "\<bar>real_of_int (new_Date (fst ?b)) - fst ?b\<bar> < 1" by (rule new_Date_error)
    ultimately show ?thesis unfolding res using l by linarith
  qed
  show ?thesis
    using c1 c2 c3 c4 unfolding E_def by blast
qed

lemma midpoint_zero_even:
  assumes "(numeral (Num.Bit0 n) :: int) < 2 ^ 53"
  shows "midpoint 0 (numeral (Num.Bit0 n)) = numeral n"
proof -
  have "(numeral (Num.Bit0 n) :: int) = numeral n + numeral n" by (rule numeral_Bit0)
  moreover have "(0::int) < numeral n" by (rule zero_less_numeral)
  ultimately have n: "(numeral n :: int) < 2 ^ 53" using assms by linarith
  have "(numeral (Num.Bit0 n) :: real) = numeral n + numeral n" by (rule numeral_Bit0)
  then have h: "(numeral (Num.Bit0 n) :: real) / 2 = numeral n" by linarith
  show ?thesis
    by (simp only: midpoint_def js_add_def js_sub_def js_div_def diff_zero add_0
          toFloat64_numeral [OF assms] h toFloat64_numeral [OF n])
qed

lemma bisect_always_lit_step:
  "i < 15 \<Longrightarrow>
   fst (bisect alwaysLit True i low high best) =
     fst (bisect alwaysLit True (Suc i) low (midpoint low high) (midpoint low high))"
  by (simp add: bisect_unfold nextBounds_midpoint alwaysLit_def)

lemma bisect_always_lit_example:
  "fst (bisect alwaysLit True 0 0 32768000 32768000) = 1000"
  by (simp add: bisect_always_lit_step midpoint_zero_even bisect_stop)

theorem findTopoTime_bisection_witness:
  "(0::int) \<le> 32768000 \<and> \<bar>0::int\<bar> \<le> 8640000000000000 \<and> \<bar>32768000::int\<bar> \<le> 8640000000000000
   \<and> length (snd (findTopoTime neverLit 0 32768000 True)) = 15
   \<and> fst (findTopoTime neverLit 0 32768000 True) = 32768000
   \<and> fst (findTopoTime neverLit 0 32768000 False) = 0
   \<and> 0 \<le> fst (findTopoTime alwaysLit 0 32768000 False)
   \<and> fst (findTopoTime alwaysLit 0 32768000 False) \<le> 32768000
   \<and> \<bar>real_of_int (fst (findTopoTime alwaysLit 0 32768000 False)) - 32767000\<bar> < 1 + 32768001 / 10 ^ 15"
  using findTopoTime_bisection [of 0 32768000 neverLit True]
        findTopoTime_bisection [of 0 32768000 neverLit False]
        findTopoTime_bisection [of 0 32768000 alwaysLit False]
  by (simp add: alwaysLit_def neverLit_def)

text \<open>
  Against C3 as stated: on the interval from 0 to 32768000 ms, with a test that is always
  lit, the search for first light returns 1000, which is neither end of the interval.
\<close>

theorem findTopoTime_always_lit_counterexample:
  "fst (findTopoTime alwaysLit 0 32768000 True) = 1000"
  using bisect_always_lit_example by (simp add: findTopoTime_eq new_Date_def)

section \<open>The yearly cache\<close>

lemma isLocationSunlit_topoTimesCache [simp]:
  "isLocationSunlit e (s\<lparr>topoTimesCache := c\<rparr>) = isLocationSunlit e s"
  by (rule ext, rule isLocationSunlit_cong) simp_all

lemma dayEntry_topoTimesCache [simp]:
  "dayEntry e (s\<lparr>topoTimesCache := c\<rparr>) = dayEntry e s"
  by (rule ext, rule ext) (simp add: dayEntry_def)

lemma dayCalls_topoTimesCache [simp]:
  "dayCalls e (s\<lparr>topoTimesCache := c\<rparr>) = dayCalls e s"
  by (rule ext, rule ext) (simp add: dayCalls_def)

lemma AList_update_fresh: "k \<notin> fst ` set al \<Longrightarrow> AList.update k v al = al @ [(k, v)]"
  by (induction al) auto

lemma cacheDays_unfold:
  "day \<le> n \<Longrightarrow>
   cacheDays e year n day (s, calls) =
     cacheDays e year n (day + 1)
       (s\<lparr>topoTimesCache := (topoTimesCache s)
            \<lparr>cache_data := AList.update day (dayEntry e s year day) (cache_data (topoTimesCache s))\<rparr>\<rparr>,
        calls @ dayCalls e s year day)"
  by (subst cacheDays.simps) (simp add: Let_def dayEntry_def dayCalls_def)

lemma cacheDays_stop: "\<not> day \<le> n \<Longrightarrow> cacheDays e year n day (s, calls) = (s, calls)"
  by (subst cacheDays.simps) simp

lemma cacheDays_result:
  assumes "\<forall>k \<in> fst ` set (cache_data (topoTimesCache s)). k < day"
  shows "cacheDays e year n day (s, calls) =
     (s\<lparr>topoTimesCache := (topoTimesCache s)
          \<lparr>cache_data := cache_data (topoTimesCache s) @ map (\<lambda>d. (d, dayEntry e s year d)) [day .. n]\<rparr>\<rparr>,
      calls @ concat (map (dayCalls e s year) [day .. n]))"
  using assms
proof (induction "nat (n + 1 - day)" arbitrary: day s calls)
  case 0
  then have "\<not> day \<le> n" by simp
  then show ?case by (simp add: cacheDays_stop)
next
  case (Suc m)
  then have d: "day \<le> n" and m: "m = nat (n + 1 - (day + 1))" by auto
  let ?s = "s\<lparr>topoTimesCache := (topoTimesCache s)
            \<lparr>cache_data := AList.update day (dayEntry e s year day) (cache_data (topoTimesCache s))\<rparr>\<rparr>"
  have fresh: "day \<notin> fst ` set (cache_data (topoTimesCache s))"
    using Suc.prems by auto
  have keys: "\<forall>k \<in> fst ` set (cache_data (topoTimesCache ?s)). k < day + 1"
    using Suc.prems by (auto simp: AList_update_fresh [OF fresh])
  show ?case
    using Suc.hyps(1) [OF m keys] d
    by (simp add: cacheDays_unfold AList_update_fresh [OF fresh] upto_rec1 [of day n])
qed

text \<open>
  C5. When the key of the cache (latitude, longitude, year) is the current one and the
  cache is not empty, \<open>cacheYearlyTopoTimes\<close> calls \<open>findTopoTime\<close> not once and
  leaves the state as it is; this is so for a second call right after a first. In every
  other case the old entries are dropped and the cache holds, under the current key, one
  fresh entry for each of the days 1 to \<open>daysInYear\<close>, made with two calls of
  \<open>findTopoTime\<close> per day; \<open>daysInYear\<close> is 366 when
  \<open>new Date(year, 1, 29).getDate()\<close> is 29, and 365 otherwise.
\<close>

theorem cacheYearlyTopoTimes_cache:
  "(cacheValid e s \<longrightarrow> cacheYearlyTopoTimes e s = (s, []))
   \<and> (\<not> cacheValid e s \<longrightarrow>
        (let year = Date_getFullYear e (selectedDate s);
             s' = fst (cacheYearlyTopoTimes e s);
             calls = snd (cacheYearlyTopoTimes e s)
         in cache_data (topoTimesCache s') = map (\<lambda>day. (day, dayEntry e s year day)) [1 .. daysInYear e year]
          \<and> cache_lat (topoTimesCache s') = Some (lat (currentLocation s))
          \<and> cache_lon (topoTimesCache s') = Some (lon (currentLocation s))
          \<and> cache_year (topoTimesCache s') = Some year
          \<and> s'\<lparr>topoTimesCache := topoTimesCache s\<rparr> = s
          \<and> calls = concat (map (dayCalls e s year) [1 .. daysInYear e year])
          \<and> int (length calls) = 2 * daysInYear e year))
   \<and> cacheYearlyTopoTimes e (fst (cacheYearlyTopoTimes e s)) = (fst (cacheYearlyTopoTimes e s), [])
   \<and> (daysInYear e year = 366 \<longleftrightarrow> Date_getDate e (Date_local e year 1 29) = 29)
   \<and> (daysInYear e year = 365 \<longleftrightarrow> Date_getDate e (Date_local e year 1 29) \<noteq> 29)"
proof -
  let ?year = "Date_getFullYear e (selectedDate s)"
  let ?s1 = "s\<lparr>topoTimesCache :=
               \<lparr>cache_lat = Some (lat (currentLocation s)), cache_lon = Some (lon (currentLocation s)),
                cache_year = Some ?year, cache_data = []\<rparr>\<rparr>"
  have hit: "cacheYearlyTopoTimes e s = (s, [])" if "cacheValid e s" for s
    using that by (simp add: cacheYearlyTopoTimes_def cacheValid_def Let_def)
  have miss: "cacheYearlyTopoTimes e s = cacheDays e ?year (daysInYear e ?year) 1 (?s1, [])"
    if "\<not> cacheValid e s"
    using that by (auto simp: cacheYearlyTopoTimes_def cacheValid_def Let_def daysInYear_def)
  have res: "cacheDays e ?year (daysInYear e ?year) 1 (?s1, []) =
      (s\<lparr>topoTimesCache :=
               \<lparr>cache_lat = Some (lat (currentLocation s)), cache_lon = Some (lon (currentLocation s)),
                cache_year = Some ?year,
                cache_data = map (\<lambda>d. (d, dayEntry e s ?year d)) [1 .. daysInYear e ?year]\<rparr>\<rparr>,
       concat (map (dayCalls e s ?year) [1 .. daysInYear e ?year]))"
    by (subst cacheDays_result) simp_all
  have len: "int (length (concat (map (dayCalls e s ?year) [1 .. n]))) = 2 * n" if "0 \<le> n" for n
    using that
  proof (induction "nat n" arbitrary: n)
    case 0
    then show ?case by simp
  next
    case (Suc m)
    then have "m = nat (n - 1)" "0 \<le> n - 1" "1 \<le> n" by auto
    then show ?case
      using Suc.hyps(1) [of "n - 1"] by (simp add: upto_rec2 [of 1 n] dayCalls_def Let_def)
  qed
  have days: "0 \<le> daysInYear e ?year" "[1 .. daysInYear e ?year] \<noteq> []"
    by (simp_all add: daysInYear_def)
  have valid: "cacheValid e (fst (cacheYearlyTopoTimes e s))"
  proof (cases "cacheValid e s")
    case True
    then show ?thesis by (simp add: hit)
  next
    case False
    show ?thesis
      using days by (simp add: miss [OF False] res cacheValid_def)
  qed
  show ?thesis
    using hit [of s] hit [OF valid] miss res len [OF days(1)]
    by (auto simp: Let_def daysInYear_def)
qed

theorem cacheYearlyTopoTimes_cache_witness:
  "\<not> cacheValid (fixedSun 1 0) (initialState 0)
   \<and> map fst (cache_data (topoTimesCache (fst (cacheYearlyTopoTimes (fixedSun 1 0) (initialState 0)))))
        = [1 .. 366]
   \<and> int (length (snd (cacheYearlyTopoTimes (fixedSun 1 0) (initialState 0)))) = 732
   \<and> cacheValid (fixedSun 1 0) (fst (cacheYearlyTopoTimes (fixedSun 1 0) (initialState 0)))
   \<and> cacheYearlyTopoTimes (fixedSun 1 0) (fst (cacheYearlyTopoTimes (fixedSun 1 0) (initialState 0)))
        = (fst (cacheYearlyTopoTimes (fixedSun 1 0) (initialState 0)), [])"
proof -
  have d: "daysInYear (fixedSun 1 0) 2024 = 366"
    by (simp add: daysInYear_def fixedSun_def)
  have y: "Date_getFullYear (fixedSun 1 0) (selectedDate (initialState 0)) = 2024"
    by (simp add: fixedSun_def)
  have n: "\<not> cacheValid (fixedSun 1 0) (initialState 0)"
    by (simp add: cacheValid_def initialState_def)
  let ?r = "cacheYearlyTopoTimes (fixedSun 1 0) (initialState 0)"
  note T = cacheYearlyTopoTimes_cache [of "fixedSun 1 0" "initialState 0" 2024, unfolded Let_def y d]
  from T n have
    data: "cache_data (topoTimesCache (fst ?r))
             = map (\<lambda>day. (day, dayEntry (fixedSun 1 0) (initialState 0) 2024 day)) [1 .. 366]"
    and la: "cache_lat (topoTimesCache (fst ?r)) = Some (lat (currentLocation (initialState 0)))"
    and lo: "cache_lon (topoTimesCache (fst ?r)) = Some (lon (currentLocation (initialState 0)))"
    and ye: "cache_year (topoTimesCache (fst ?r)) = Some 2024"
    and fr: "(fst ?r)\<lparr>topoTimesCache := topoTimesCache (initialState 0)\<rparr> = initialState 0"
    and calls0: "int (length (snd ?r)) = 2 * 366"
    by blast+
  have calls: "int (length (snd ?r)) = 732"
    using calls0 by simp
  from T have again: "cacheYearlyTopoTimes (fixedSun 1 0) (fst ?r) = (fst ?r, [])"
    by blast
  have keys: "map fst (cache_data (topoTimesCache (fst ?r))) = [1 .. 366]"
    by (simp add: data comp_def)
  have "currentLocation ((fst ?r)\<lparr>topoTimesCache := topoTimesCache (initialState 0)\<rparr>)
          = currentLocation (initialState 0)"
       "selectedDate ((fst ?r)\<lparr>topoTimesCache := topoTimesCache (initialState 0)\<rparr>)
          = selectedDate (initialState 0)"
    by (simp_all only: fr)
  then have same: "currentLocation (fst ?r) = currentLocation (initialState 0)"
             "selectedDate (fst ?r) = selectedDate (initialState 0)"
    by simp_all
  have ne: "cache_data (topoTimesCache (fst ?r)) \<noteq> []"
    by (simp add: data upto_rec1 [of 1 366])
  have v: "cacheValid (fixedSun 1 0) (fst ?r)"
    using la lo ye ne same y by (simp add: cacheValid_def)
  show ?thesis
    using n keys calls v again by blast
qed

section \<open>Stitching of the tile boundaries\<close>

lemma updateSkirt_length [simp]: "length (updateSkirt tile e a v) = length v"
  by (simp add: updateSkirt_def setZ_def split: option.splits)

lemma updateSkirt_nth:
  "k < topVerticesCount tile \<Longrightarrow> updateSkirt tile e a v ! k = v ! k"
  by (simp add: updateSkirt_def setZ_def split: option.splits)

lemma setZ_length [simp]: "length (setZ v i z) = length v"
  by (simp add: setZ_def)

lemma setZ_nth: "i < length v \<Longrightarrow> setZ v i z ! k = (if k = i then toFloat32 z else v ! k)"
  by (simp add: setZ_def nth_list_update)

lemma right_index: "k mod 256 = 255 \<and> k div 256 = n \<longleftrightarrow> k = n * 256 + (255::nat)"
proof
  assume "k mod 256 = 255 \<and> k div 256 = n"
  then show "k = n * 256 + 255"
    using div_mult_mod_eq [of k 256] by simp
next
  assume "k = n * 256 + 255"
  then show "k mod 256 = 255 \<and> k div 256 = n" by simp
qed

lemma left_index: "k mod 256 = 0 \<and> k div 256 = n \<longleftrightarrow> k = n * (256::nat)"
proof
  assume "k mod 256 = 0 \<and> k div 256 = n"
  then show "k = n * 256"
    using div_mult_mod_eq [of k 256] by simp
next
  assume "k = n * 256"
  then show "k mod 256 = 0 \<and> k div 256 = n" by simp
qed

lemma syncRight_fold:
  assumes "65536 \<le> topVerticesCount tile" "65536 \<le> length v" "65536 \<le> length rv" "n \<le> 256"
  shows "length (fst (fold (syncRightStep tile) [0 ..< n] (v, rv))) = length v
       \<and> length (snd (fold (syncRightStep tile) [0 ..< n] (v, rv))) = length rv
       \<and> (\<forall>k < 65536. fst (fold (syncRightStep tile) [0 ..< n] (v, rv)) ! k =
             (if k mod 256 = 255 \<and> k div 256 < n
              then toFloat32 ((v ! k + rv ! (k - 255)) / 2) else v ! k))
       \<and> (\<forall>k < 65536. snd (fold (syncRightStep tile) [0 ..< n] (v, rv)) ! k =
             (if k mod 256 = 0 \<and> k div 256 < n
              then toFloat32 ((v ! (k + 255) + rv ! k) / 2) else rv ! k))"
  using assms(4)
proof (induction n)
  case 0
  then show ?case by simp
next
  case (Suc n)
  let ?p = "fold (syncRightStep tile) [0 ..< n] (v, rv)"
  obtain vn rvn where p: "?p = (vn, rvn)" by (cases ?p)
  have n: "n < 256" using Suc.prems by simp
  then have idx: "n * 256 + 255 < 65536" "n * 256 < 65536" by simp_all
  from Suc.IH p n have
    lv: "length vn = length v" and lrv: "length rvn = length rv"
    and vn: "\<And>k. k < 65536 \<Longrightarrow> vn ! k =
             (if k mod 256 = 255 \<and> k div 256 < n
              then toFloat32 ((v ! k + rv ! (k - 255)) / 2) else v ! k)"
    and rvn: "\<And>k. k < 65536 \<Longrightarrow> rvn ! k =
             (if k mod 256 = 0 \<and> k div 256 < n
              then toFloat32 ((v ! (k + 255) + rv ! k) / 2) else rv ! k)"
    by simp_all
  have a: "vn ! (n * 256 + 255) = v ! (n * 256 + 255)"
    using vn [OF idx(1)] by simp
  have b: "rvn ! (n * 256) = rv ! (n * 256)"
    using rvn [OF idx(2)] by simp
  have step: "fold (syncRightStep tile) [0 ..< Suc n] (v, rv) = syncRightStep tile n (vn, rvn)"
    by (simp add: p)
  let ?avg = "(v ! (n * 256 + 255) + rv ! (n * 256)) / 2"
  have s: "syncRightStep tile n (vn, rvn) =
      (updateSkirt tile (n * 256 + 255) ?avg (setZ vn (n * 256 + 255) ?avg), setZ rvn (n * 256) ?avg)"
    by (simp add: syncRightStep_def gridSize_def getZ_def Let_def a b)
  have v': "updateSkirt tile (n * 256 + 255) ?avg (setZ vn (n * 256 + 255) ?avg) ! k =
             (if k mod 256 = 255 \<and> k div 256 < Suc n
              then toFloat32 ((v ! k + rv ! (k - 255)) / 2) else v ! k)" if k: "k < 65536" for k
  proof -
    have "k < topVerticesCount tile" using k assms(1) by simp
    then have "updateSkirt tile (n * 256 + 255) ?avg (setZ vn (n * 256 + 255) ?avg) ! k
        = setZ vn (n * 256 + 255) ?avg ! k"
      by (rule updateSkirt_nth)
    also have "\<dots> = (if k = n * 256 + 255 then toFloat32 ?avg else vn ! k)"
      using idx lv assms(2) by (simp add: setZ_nth)
    also have "\<dots> = (if k mod 256 = 255 \<and> k div 256 < Suc n
              then toFloat32 ((v ! k + rv ! (k - 255)) / 2) else v ! k)"
      using vn [OF k] right_index [of k n] by (auto simp: less_Suc_eq)
    finally show ?thesis .
  qed
  have rv': "setZ rvn (n * 256) ?avg ! k =
             (if k mod 256 = 0 \<and> k div 256 < Suc n
              then toFloat32 ((v ! (k + 255) + rv ! k) / 2) else rv ! k)" if k: "k < 65536" for k
  proof -
    have "setZ rvn (n * 256) ?avg ! k = (if k = n * 256 then toFloat32 ?avg else rvn ! k)"
      using idx lrv assms(3) by (simp add: setZ_nth)
    also have "\<dots> = (if k mod 256 = 0 \<and> k div 256 < Suc n
              then toFloat32 ((v ! (k + 255) + rv ! k) / 2) else rv ! k)"
      using rvn [OF k] left_index [of k n] by (auto simp: less_Suc_eq)
    finally show ?thesis .
  qed
  show ?case
    unfolding step s using lv lrv v' rv' by simp
qed

lemma syncBottom_fold:
  assumes "65536 \<le> topVerticesCount tile" "65536 \<le> length v" "65536 \<le> length bv" "n \<le> 256"
  shows "length (fst (fold (syncBottomStep tile) [0 ..< n] (v, bv))) = length v
       \<and> length (snd (fold (syncBottomStep tile) [0 ..< n] (v, bv))) = length bv
       \<and> (\<forall>k < 65536. fst (fold (syncBottomStep tile) [0 ..< n] (v, bv)) ! k =
             (if 65280 \<le> k \<and> k - 65280 < n
              then toFloat32 ((v ! k + bv ! (k - 65280)) / 2) else v ! k))
       \<and> (\<forall>k < 65536. snd (fold (syncBottomStep tile) [0 ..< n] (v, bv)) ! k =
             (if k < n then toFloat32 ((v ! (k + 65280) + bv ! k) / 2) else bv ! k))"
  using assms(4)
proof (induction n)
  case 0
  then show ?case by simp
next
  case (Suc n)
  let ?p = "fold (syncBottomStep tile) [0 ..< n] (v, bv)"
  obtain vn bvn where p: "?p = (vn, bvn)" by (cases ?p)
  have n: "n < 256" using Suc.prems by simp
  then have idx: "65280 + n < 65536" "n < 65536" by simp_all
  from Suc.IH p n have
    lv: "length vn = length v" and lbv: "length bvn = length bv"
    and vn: "\<And>k. k < 65536 \<Longrightarrow> vn ! k =
             (if 65280 \<le> k \<and> k - 65280 < n
              then toFloat32 ((v ! k + bv ! (k - 65280)) / 2) else v ! k)"
    and bvn: "\<And>k. k < 65536 \<Longrightarrow> bvn ! k =
             (if k < n then toFloat32 ((v ! (k + 65280) + bv ! k) / 2) else bv ! k)"
    by simp_all
  have a: "vn ! (65280 + n) = v ! (65280 + n)"
    using vn [OF idx(1)] by simp
  have b: "bvn ! n = bv ! n"
    using bvn [OF idx(2)] by simp
  have step: "fold (syncBottomStep tile) [0 ..< Suc n] (v, bv) = syncBottomStep tile n (vn, bvn)"
    by (simp add: p)
  let ?avg = "(v ! (65280 + n) + bv ! n) / 2"
  have s: "syncBottomStep tile n (vn, bvn) =
      (updateSkirt tile (65280 + n) ?avg (setZ vn (65280 + n) ?avg), setZ bvn n ?avg)"
    by (simp add: syncBottomStep_def gridSize_def getZ_def Let_def a b)
  have v': "updateSkirt tile (65280 + n) ?avg (setZ vn (65280 + n) ?avg) ! k =
             (if 65280 \<le> k \<and> k - 65280 < Suc n
              then toFloat32 ((v ! k + bv ! (k - 65280)) / 2) else v ! k)" if k: "k < 65536" for k
  proof -
    have "k < topVerticesCount tile" using k assms(1) by simp
    then have "updateSkirt tile (65280 + n) ?avg (setZ vn (65280 + n) ?avg) ! k
        = setZ vn (65280 + n) ?avg ! k"
      by (rule updateSkirt_nth)
    also have "\<dots> = (if k = 65280 + n then toFloat32 ?avg else vn ! k)"
      using idx lv assms(2) by (simp add: setZ_nth)
    also have "\<dots> = (if 65280 \<le> k \<and> k - 65280 < Suc n
              then toFloat32 ((v ! k + bv ! (k - 65280)) / 2) else v ! k)"
    proof (cases "k = 65280 + n")
      case True
      then show ?thesis by simp
    next
      case False
      then have "(65280 \<le> k \<and> k - 65280 < Suc n) = (65280 \<le> k \<and> k - 65280 < n)"
        by linarith
      then show ?thesis using False vn [OF k] by simp
    qed
    finally show ?thesis .
  qed
  have bv': "setZ bvn n ?avg ! k =
             (if k < Suc n then toFloat32 ((v ! (k + 65280) + bv ! k) / 2) else bv ! k)"
    if k: "k < 65536" for k
  proof -
    have "setZ bvn n ?avg ! k = (if k = n then toFloat32 ?avg else bvn ! k)"
      using idx lbv assms(3) by (simp add: setZ_nth)
    also have "\<dots> = (if k < Suc n then toFloat32 ((v ! (k + 65280) + bv ! k) / 2) else bv ! k)"
      using bvn [OF k] by (auto simp: less_Suc_eq add.commute)
    finally show ?thesis .
  qed
  show ?case
    unfolding step s using lv lbv v' bv' by simp
qed

lemma installedD:
  "installed g r \<Longrightarrow> - r \<le> i \<Longrightarrow> i \<le> r \<Longrightarrow> - r \<le> j \<Longrightarrow> j \<le> r \<Longrightarrow>
   \<exists>m. g (i, j) = Some m \<and> 65536 \<le> topVerticesCount m \<and> 65536 \<le> length (positionZ m)"
  by (simp add: installed_def meshOK_def gridSize_def)

lemma syncRight_grid:
  assumes inst: "installed g r" and rng: "- r \<le> i" "i \<le> r" "- r \<le> j" "j \<le> r"
  shows "installed (syncRight r i j g) r"
    and "\<And>t k. k < 65536 \<Longrightarrow> vertexZ (syncRight r i j g) t k =
           (if j < r \<and> t = (i, j) \<and> k mod 256 = 255
            then toFloat32 ((vertexZ g (i, j) k + vertexZ g (i, j + 1) (k - 255)) / 2)
            else if j < r \<and> t = (i, j + 1) \<and> k mod 256 = 0
            then toFloat32 ((vertexZ g (i, j) (k + 255) + vertexZ g (i, j + 1) k) / 2)
            else vertexZ g t k)"
proof -
  show "installed (syncRight r i j g) r"
  proof (cases "j < r")
    case False
    then show ?thesis using inst by (simp add: syncRight_def)
  next
    case True
    obtain tile where tile: "g (i, j) = Some tile" "65536 \<le> topVerticesCount tile"
        "65536 \<le> length (positionZ tile)"
      using installedD [OF inst rng] by blast
    obtain rt where rt: "g (i, j + 1) = Some rt" "65536 \<le> topVerticesCount rt"
        "65536 \<le> length (positionZ rt)"
      using installedD [OF inst rng(1,2), of "j + 1"] rng True by auto
    note F = syncRight_fold [OF tile(2,3) rt(3), of 256, simplified]
    show ?thesis
      using inst True tile rt F
      by (auto simp: syncRight_def installed_def meshOK_def gridSize_def split: prod.splits)
  qed
next
  fix t k
  assume k: "k < (65536::nat)"
  then have kd: "k div 256 < 256" by simp
  show "vertexZ (syncRight r i j g) t k =
           (if j < r \<and> t = (i, j) \<and> k mod 256 = 255
            then toFloat32 ((vertexZ g (i, j) k + vertexZ g (i, j + 1) (k - 255)) / 2)
            else if j < r \<and> t = (i, j + 1) \<and> k mod 256 = 0
            then toFloat32 ((vertexZ g (i, j) (k + 255) + vertexZ g (i, j + 1) k) / 2)
            else vertexZ g t k)"
  proof (cases "j < r")
    case False
    then show ?thesis by (simp add: syncRight_def)
  next
    case True
    obtain tile where tile: "g (i, j) = Some tile" "65536 \<le> topVerticesCount tile"
        "65536 \<le> length (positionZ tile)"
      using installedD [OF inst rng] by blast
    obtain rt where rt: "g (i, j + 1) = Some rt" "65536 \<le> topVerticesCount rt"
        "65536 \<le> length (positionZ rt)"
      using installedD [OF inst rng(1,2), of "j + 1"] rng True by auto
    note F = syncRight_fold [OF tile(2,3) rt(3), of 256, simplified]
    let ?F = "fold (syncRightStep tile) [0 ..< 256] (positionZ tile, positionZ rt)"
    have g': "syncRight r i j g =
        g((i, j) \<mapsto> tile\<lparr>positionZ := fst ?F\<rparr>, (i, j + 1) \<mapsto> rt\<lparr>positionZ := snd ?F\<rparr>)"
      using True tile rt by (simp add: syncRight_def gridSize_def split: prod.splits)
    have fv: "fst ?F ! k = (if k mod 256 = 255
              then toFloat32 ((positionZ tile ! k + positionZ rt ! (k - 255)) / 2)
              else positionZ tile ! k)"
      using F k kd by simp
    have sv: "snd ?F ! k = (if k mod 256 = 0
              then toFloat32 ((positionZ tile ! (k + 255) + positionZ rt ! k) / 2)
              else positionZ rt ! k)"
      using F k kd by simp
    show ?thesis
      unfolding g' using True tile(1) rt(1) fv sv
      by (auto simp: vertexZ_def getZ_def)
  qed
qed

lemma syncBottom_grid:
  assumes inst: "installed g r" and rng: "- r \<le> i" "i \<le> r" "- r \<le> j" "j \<le> r"
  shows "installed (syncBottom r i j g) r"
    and "\<And>t k. k < 65536 \<Longrightarrow> vertexZ (syncBottom r i j g) t k =
           (if i < r \<and> t = (i, j) \<and> 65280 \<le> k
            then toFloat32 ((vertexZ g (i, j) k + vertexZ g (i + 1, j) (k - 65280)) / 2)
            else if i < r \<and> t = (i + 1, j) \<and> k < 256
            then toFloat32 ((vertexZ g (i, j) (k + 65280) + vertexZ g (i + 1, j) k) / 2)
            else vertexZ g t k)"
proof -
  show "installed (syncBottom r i j g) r"
  proof (cases "i < r")
    case False
    then show ?thesis using inst by (simp add: syncBottom_def)
  next
    case True
    obtain tile where tile: "g (i, j) = Some tile" "65536 \<le> topVerticesCount tile"
        "65536 \<le> length (positionZ tile)"
      using installedD [OF inst rng] by blast
    obtain bt where bt: "g (i + 1, j) = Some bt" "65536 \<le> topVerticesCount bt"
        "65536 \<le> length (positionZ bt)"
      using installedD [OF inst _ _ rng(3,4), of "i + 1"] rng True by auto
    note F = syncBottom_fold [OF tile(2,3) bt(3), of 256, simplified]
    show ?thesis
      using inst True tile bt F
      by (auto simp: syncBottom_def installed_def meshOK_def gridSize_def split: prod.splits)
  qed
next
  fix t k
  assume k: "k < (65536::nat)"
  show "vertexZ (syncBottom r i j g) t k =
           (if i < r \<and> t = (i, j) \<and> 65280 \<le> k
            then toFloat32 ((vertexZ g (i, j) k + vertexZ g (i + 1, j) (k - 65280)) / 2)
            else if i < r \<and> t = (i + 1, j) \<and> k < 256
            then toFloat32 ((vertexZ g (i, j) (k + 65280) + vertexZ g (i + 1, j) k) / 2)
            else vertexZ g t k)"
  proof (cases "i < r")
    case False
    then show ?thesis by (simp add: syncBottom_def)
  next
    case True
    obtain tile where tile: "g (i, j) = Some tile" "65536 \<le> topVerticesCount tile"
        "65536 \<le> length (positionZ tile)"
      using installedD [OF inst rng] by blast
    obtain bt where bt: "g (i + 1, j) = Some bt" "65536 \<le> topVerticesCount bt"
        "65536 \<le> length (positionZ bt)"
      using installedD [OF inst _ _ rng(3,4), of "i + 1"] rng True by auto
    note F = syncBottom_fold [OF tile(2,3) bt(3), of 256, simplified]
    let ?F = "fold (syncBottomStep tile) [0 ..< 256] (positionZ tile, positionZ bt)"
    have g': "syncBottom r i j g =
        g((i, j) \<mapsto> tile\<lparr>positionZ := fst ?F\<rparr>, (i + 1, j) \<mapsto> bt\<lparr>positionZ := snd ?F\<rparr>)"
      using True tile bt by (simp add: syncBottom_def gridSize_def split: prod.splits)
    have kk: "k - 65280 < 256" using k by simp
    have fv: "fst ?F ! k = (if 65280 \<le> k
              then toFloat32 ((positionZ tile ! k + positionZ bt ! (k - 65280)) / 2)
              else positionZ tile ! k)"
      using F k kk by simp
    have sv: "snd ?F ! k = (if k < 256
              then toFloat32 ((positionZ tile ! (k + 65280) + positionZ bt ! k) / 2)
              else positionZ bt ! k)"
      using F k by simp
    show ?thesis
      unfolding g' using True tile(1) bt(1) fv sv
      by (auto simp: vertexZ_def getZ_def)
  qed
qed

lemma syncTile_grid:
  assumes inst: "installed g r" and rng: "- r \<le> i" "i \<le> r" "- r \<le> j" "j \<le> r"
  shows "installed (syncTile r i j g) r"
    and "syncTile r i j g = syncBottom r i j (syncRight r i j g)"
proof -
  obtain tile where "g (i, j) = Some tile"
    using installedD [OF inst rng] by blast
  then show "syncTile r i j g = syncBottom r i j (syncRight r i j g)"
    by (simp add: syncTile_def)
  then show "installed (syncTile r i j g) r"
    using syncBottom_grid(1) [OF syncRight_grid(1) [OF inst rng] rng] by simp
qed

lemma nested_fold_product:
  "fold (\<lambda>i g. fold (\<lambda>j g. F i j g) js g) is g = fold (\<lambda>t. F (fst t) (snd t)) (List.product is js) g"
  by (induction "is" arbitrary: g) (simp_all add: fold_map comp_def)

lemma synchronizeTileBoundaries_fold:
  "terrainGrid (synchronizeTileBoundaries r s) =
     fold (\<lambda>t. syncTile r (fst t) (snd t)) (List.product [- r .. r] [- r .. r]) (terrainGrid s)"
  by (simp add: synchronizeTileBoundaries_def nested_fold_product)

lemma fold_frame:
  assumes "I g" and "\<And>x g. x \<in> set xs \<Longrightarrow> I g \<Longrightarrow> I (f x g) \<and> V (f x g) = V g"
  shows "I (fold f xs g) \<and> V (fold f xs g) = V g"
  using assms by (induction xs arbitrary: g) auto

lemma fold_touch_once:
  assumes d: "distinct xs" and t: "t \<in> set xs" and I: "I g"
    and inv: "\<And>x g. x \<in> set xs \<Longrightarrow> I g \<Longrightarrow> I (f x g)"
    and frame: "\<And>x g. x \<in> set xs \<Longrightarrow> x \<noteq> t \<Longrightarrow> I g \<Longrightarrow> V (f x g) = V g"
    and hit: "\<And>g. I g \<Longrightarrow> V (f t g) = h (V g)"
  shows "V (fold f xs g) = h (V g)"
proof -
  obtain ys zs where xs: "xs = ys @ t # zs" using t by (meson split_list)
  have nys: "t \<notin> set ys" and nzs: "t \<notin> set zs" using d xs by auto
  have 1: "I (fold f ys g) \<and> V (fold f ys g) = V g"
    by (rule fold_frame [where I = I and V = V and f = f, OF I]) (use inv frame nys xs in auto)
  then have 2: "I (f t (fold f ys g))" "V (f t (fold f ys g)) = h (V g)"
    using inv [of t] hit xs by auto
  have 3: "I (fold f zs (f t (fold f ys g))) \<and> V (fold f zs (f t (fold f ys g))) = V (f t (fold f ys g))"
    by (rule fold_frame [where I = I and V = V and f = f, OF 2(1)]) (use inv frame nzs xs in auto)
  show ?thesis using 2 3 by (simp add: xs)
qed

lemma tiles_distinct: "distinct (List.product [- r .. r] [- r .. r])"
  by (simp add: distinct_product)

lemma tiles_set: "(i, j) \<in> set (List.product [- r .. r] [- r .. r]) \<longleftrightarrow> - r \<le> i \<and> i \<le> r \<and> - r \<le> j \<and> j \<le> r"
  by auto

lemma stitch_right_edge:
  assumes inst: "installed g r" and rng: "- r \<le> i" "i \<le> r" "- r \<le> j" "j < r"
    and n: "0 < n" "n < 255"
  defines "g' \<equiv> fold (\<lambda>t. syncTile r (fst t) (snd t)) (List.product [- r .. r] [- r .. r]) g"
  shows "vertexZ g' (i, j) (n * 256 + 255)
           = toFloat32 ((vertexZ g (i, j) (n * 256 + 255) + vertexZ g (i, j + 1) (n * 256)) / 2)"
    and "vertexZ g' (i, j + 1) (n * 256)
           = toFloat32 ((vertexZ g (i, j) (n * 256 + 255) + vertexZ g (i, j + 1) (n * 256)) / 2)"
proof -
  let ?kL = "n * 256 + 255" and ?kR = "n * 256"
  let ?V = "\<lambda>g. (vertexZ g (i, j) ?kL, vertexZ g (i, j + 1) ?kR)"
  let ?h = "\<lambda>(a, b). (toFloat32 ((a + b) / 2), toFloat32 ((a + b) / 2 :: real))"
  have k: "?kL < 65536" "?kR < 65536" "?kL mod 256 = 255" "?kR mod 256 = 0"
    "\<not> 65280 \<le> ?kL" "\<not> 65280 \<le> ?kR" "\<not> ?kL < 256" "\<not> ?kR < 256" "?kL - 255 = ?kR"
    using n by simp_all
  have jr: "j \<le> r" using rng by simp
  have "?V g' = ?h (?V g)"
    unfolding g'_def
  proof (rule fold_touch_once [where t = "(i, j)" and I = "\<lambda>g. installed g r"])
    show "distinct (List.product [- r .. r] [- r .. r])" by (rule tiles_distinct)
    show "(i, j) \<in> set (List.product [- r .. r] [- r .. r])" using rng by simp
    show "installed g r" by (rule inst)
  next
    fix x g assume "x \<in> set (List.product [- r .. r] [- r .. r])" "installed g r"
    then show "installed (syncTile r (fst x) (snd x) g) r"
      by (auto intro: syncTile_grid(1))
  next
    fix x g
    assume x: "x \<in> set (List.product [- r .. r] [- r .. r])" "x \<noteq> (i, j)" and I: "installed g r"
    obtain i' j' where x': "x = (i', j')" by (cases x)
    have r': "- r \<le> i'" "i' \<le> r" "- r \<le> j'" "j' \<le> r" using x x' by auto
    note R = syncRight_grid [OF I r']
    note B = syncBottom_grid(2) [OF R(1) r']
    show "?V (syncTile r (fst x) (snd x) g) = ?V g"
      using x(2) k
      by (auto simp: x' syncTile_grid(2) [OF I r'] B R(2))
  next
    fix g assume I: "installed g r"
    note R = syncRight_grid [OF I rng(1,2,3) jr]
    note B = syncBottom_grid(2) [OF R(1) rng(1,2,3) jr]
    show "?V (syncTile r (fst (i, j)) (snd (i, j)) g) = ?h (?V g)"
      using k rng
      by (simp add: syncTile_grid(2) [OF I rng(1,2,3) jr] B R(2))
  qed
  then show "vertexZ g' (i, j) (n * 256 + 255)
           = toFloat32 ((vertexZ g (i, j) (n * 256 + 255) + vertexZ g (i, j + 1) (n * 256)) / 2)"
    and "vertexZ g' (i, j + 1) (n * 256)
           = toFloat32 ((vertexZ g (i, j) (n * 256 + 255) + vertexZ g (i, j + 1) (n * 256)) / 2)"
    by simp_all
qed

lemma stitch_bottom_edge:
  assumes inst: "installed g r" and rng: "- r \<le> i" "i < r" "- r \<le> j" "j \<le> r"
    and n: "0 < n" "n < 255"
  defines "g' \<equiv> fold (\<lambda>t. syncTile r (fst t) (snd t)) (List.product [- r .. r] [- r .. r]) g"
  shows "vertexZ g' (i, j) (n + 65280)
           = toFloat32 ((vertexZ g (i, j) (n + 65280) + vertexZ g (i + 1, j) n) / 2)"
    and "vertexZ g' (i + 1, j) n
           = toFloat32 ((vertexZ g (i, j) (n + 65280) + vertexZ g (i + 1, j) n) / 2)"
proof -
  let ?kT = "n + 65280" and ?kB = "n"
  let ?V = "\<lambda>g. (vertexZ g (i, j) ?kT, vertexZ g (i + 1, j) ?kB)"
  let ?h = "\<lambda>(a, b). (toFloat32 ((a + b) / 2), toFloat32 ((a + b) / 2 :: real))"
  have e: "n + 65280 = n + 255 * 256" by simp
  have m: "(n + 65280) mod 256 = n"
    unfolding e using n by (simp only: mod_mult_self1) simp
  have k: "?kT < 65536" "?kB < 65536" "?kT mod 256 \<noteq> 255" "?kB mod 256 \<noteq> 255"
    "?kT mod 256 \<noteq> 0" "?kB mod 256 \<noteq> 0"
    "65280 \<le> ?kT" "\<not> 65280 \<le> ?kB" "\<not> ?kT < 256" "?kB < 256" "?kT - 65280 = ?kB"
    using n by (simp_all add: m)
  have ir: "i \<le> r" using rng by simp
  have "?V g' = ?h (?V g)"
    unfolding g'_def
  proof (rule fold_touch_once [where t = "(i, j)" and I = "\<lambda>g. installed g r"])
    show "distinct (List.product [- r .. r] [- r .. r])" by (rule tiles_distinct)
    show "(i, j) \<in> set (List.product [- r .. r] [- r .. r])" using rng by simp
    show "installed g r" by (rule inst)
  next
    fix x g assume "x \<in> set (List.product [- r .. r] [- r .. r])" "installed g r"
    then show "installed (syncTile r (fst x) (snd x) g) r"
      by (auto intro: syncTile_grid(1))
  next
    fix x g
    assume x: "x \<in> set (List.product [- r .. r] [- r .. r])" "x \<noteq> (i, j)" and I: "installed g r"
    obtain i' j' where x': "x = (i', j')" by (cases x)
    have r': "- r \<le> i'" "i' \<le> r" "- r \<le> j'" "j' \<le> r" using x x' by auto
    note R = syncRight_grid [OF I r']
    note B = syncBottom_grid(2) [OF R(1) r']
    show "?V (syncTile r (fst x) (snd x) g) = ?V g"
      using x(2) k
      by (auto simp: x' syncTile_grid(2) [OF I r'] B R(2))
  next
    fix g assume I: "installed g r"
    note R = syncRight_grid [OF I rng(1) ir rng(3,4)]
    note B = syncBottom_grid(2) [OF R(1) rng(1) ir rng(3,4)]
    show "?V (syncTile r (fst (i, j)) (snd (i, j)) g) = ?h (?V g)"
      using k rng
      by (simp add: syncTile_grid(2) [OF I rng(1) ir rng(3,4)] B R(2))
  qed
  then show "vertexZ g' (i, j) (n + 65280)
           = toFloat32 ((vertexZ g (i, j) (n + 65280) + vertexZ g (i + 1, j) n) / 2)"
    and "vertexZ g' (i + 1, j) n
           = toFloat32 ((vertexZ g (i, j) (n + 65280) + vertexZ g (i + 1, j) n) / 2)"
    by simp_all
qed

lemma product_append: "List.product (xs @ ys) zs = List.product xs zs @ List.product ys zs"
  by (induction xs) simp_all

lemma tiles_split:
  assumes "- r \<le> i" "i \<le> r" "- r \<le> j" "j \<le> r"
  shows "List.product [- r .. r] [- r .. r] =
     (List.product [- r .. i - 1] [- r .. r] @ map (Pair i) [- r .. j - 1])
       @ (i, j) # (map (Pair i) [j + 1 .. r] @ List.product [i + 1 .. r] [- r .. r])"
proof -
  have "List.product [- r .. r] [- r .. r]
      = List.product ([- r .. i - 1] @ i # [i + 1 .. r]) [- r .. r]"
    using upto_split3 [OF assms(1,2)] by simp
  also have "\<dots> = List.product [- r .. i - 1] [- r .. r] @ map (Pair i) [- r .. r]
       @ List.product [i + 1 .. r] [- r .. r]"
    by (simp add: product_append)
  also have "map (Pair i) [- r .. r] = map (Pair i) [- r .. j - 1] @ (i, j) # map (Pair i) [j + 1 .. r]"
    using upto_split3 [OF assms(3,4)] by simp
  finally show ?thesis by simp
qed

lemma stitch_corner:
  assumes inst: "installed g r" and rng: "- r \<le> i" "i < r" "- r \<le> j" "j < r"
  defines "g' \<equiv> fold (\<lambda>t. syncTile r (fst t) (snd t)) (List.product [- r .. r] [- r .. r]) g"
  shows "vertexZ g' (i, j) 65535
           = toFloat32 ((toFloat32 ((vertexZ g (i, j) 65535 + vertexZ g (i, j + 1) 65280) / 2)
                         + vertexZ g (i + 1, j) 255) / 2)"
proof -
  let ?f = "\<lambda>t. syncTile r (fst t) (snd t)"
  let ?pre = "List.product [- r .. i - 1] [- r .. r] @ map (Pair i) [- r .. j - 1]"
  let ?post = "map (Pair i) [j + 1 .. r] @ List.product [i + 1 .. r] [- r .. r]"
  let ?I = "\<lambda>g. installed g r"
  let ?V3 = "\<lambda>g. (vertexZ g (i, j) 65535, vertexZ g (i, j + 1) 65280, vertexZ g (i + 1, j) 255)"
  let ?A = "\<lambda>g. vertexZ g (i, j) 65535"
  have ir: "i \<le> r" and jr: "j \<le> r" using rng by simp_all
  have split: "List.product [- r .. r] [- r .. r] = ?pre @ (i, j) # ?post"
    by (rule tiles_split [OF rng(1) ir rng(3) jr])
  have pre: "?I (fold ?f ?pre g) \<and> ?V3 (fold ?f ?pre g) = ?V3 g"
  proof (rule fold_frame [where I = ?I and V = ?V3 and f = ?f, OF inst])
    fix x g
    assume x: "x \<in> set ?pre" and I: "installed g r"
    obtain i' j' where x': "x = (i', j')" by (cases x)
    have r': "- r \<le> i'" "i' \<le> r" "- r \<le> j'" "j' \<le> r" using x x' rng by auto
    have ne: "(i', j') \<noteq> (i, j)" "(i', j') \<noteq> (i, j + 1)" "(i', j') \<noteq> (i + 1, j)"
      using x x' by auto
    note R = syncRight_grid [OF I r']
    note B = syncBottom_grid(2) [OF R(1) r']
    have "?V3 (syncTile r i' j' g) = ?V3 g"
      using ne by (auto simp: syncTile_grid(2) [OF I r'] B R(2))
    then show "?I (?f x g) \<and> ?V3 (?f x g) = ?V3 g"
      using syncTile_grid(1) [OF I r'] by (simp add: x')
  qed
  define g1 where "g1 = fold ?f ?pre g"
  have I1: "installed g1 r" and V1: "?V3 g1 = ?V3 g"
    using pre by (simp_all only: g1_def)
  note R = syncRight_grid [OF I1 rng(1) ir rng(3) jr]
  note B = syncBottom_grid(2) [OF R(1) rng(1) ir rng(3) jr]
  have hit: "?A (syncTile r i j g1)
      = toFloat32 ((toFloat32 ((vertexZ g (i, j) 65535 + vertexZ g (i, j + 1) 65280) / 2)
                         + vertexZ g (i + 1, j) 255) / 2)"
    using V1 rng
    by (simp add: syncTile_grid(2) [OF I1 rng(1) ir rng(3) jr] B R(2))
  have I2: "?I (syncTile r i j g1)"
    by (rule syncTile_grid(1) [OF I1 rng(1) ir rng(3) jr])
  have post: "?I (fold ?f ?post (syncTile r i j g1)) \<and> ?A (fold ?f ?post (syncTile r i j g1)) = ?A (syncTile r i j g1)"
  proof (rule fold_frame [where I = ?I and V = ?A and f = ?f, OF I2])
    fix x g
    assume x: "x \<in> set ?post" and I: "installed g r"
    obtain i' j' where x': "x = (i', j')" by (cases x)
    have r': "- r \<le> i'" "i' \<le> r" "- r \<le> j'" "j' \<le> r" using x x' rng by auto
    have ne: "(i', j') \<noteq> (i, j)"
      using x x' by auto
    note R = syncRight_grid [OF I r']
    note B = syncBottom_grid(2) [OF R(1) r']
    have "?A (syncTile r i' j' g) = ?A g"
      using ne by (auto simp: syncTile_grid(2) [OF I r'] B R(2))
    then show "?I (?f x g) \<and> ?A (?f x g) = ?A g"
      using syncTile_grid(1) [OF I r'] by (simp add: x')
  qed
  have "g' = fold ?f ?post (syncTile r i j g1)"
    unfolding g'_def split g1_def by (simp only: fold_append fold_Cons comp_def fst_conv snd_conv)
  then show ?thesis
    using post hit by simp
qed

lemma createSkirtedPlaneGeometry_top:
  "topVerticesCount (createSkirtedPlaneGeometry a b d) = (a + 1) * (b + 1)"
  "(a + 1) * (b + 1) \<le> length (positionZ (createSkirtedPlaneGeometry a b d))"
  "k < (a + 1) * (b + 1) \<Longrightarrow> positionZ (createSkirtedPlaneGeometry a b d) ! k = 0"
proof -
  obtain m where m: "createSkirtedPlaneGeometry a b d =
      \<lparr>positionZ = replicate ((a + 1) * (b + 1)) (toFloat32 0) @ replicate (length m) (toFloat32 (- d)),
       topVerticesCount = (a + 1) * (b + 1),
       edgeToSkirtMap = map (\<lambda>(edgeIndex, skirtAbsoluteIndex). (edgeIndex, skirtAbsoluteIndex - (a + 1) * (b + 1))) m,
       skirtDepth = d\<rparr>"
    unfolding createSkirtedPlaneGeometry_def Let_def by blast
  show "topVerticesCount (createSkirtedPlaneGeometry a b d) = (a + 1) * (b + 1)"
    unfolding m by (simp only: mesh.select_convs)
  show "(a + 1) * (b + 1) \<le> length (positionZ (createSkirtedPlaneGeometry a b d))"
    unfolding m by (simp only: mesh.select_convs length_append length_replicate le_add1)
  show "positionZ (createSkirtedPlaneGeometry a b d) ! k = 0" if "k < (a + 1) * (b + 1)"
    unfolding m using that
    by (simp only: mesh.select_convs nth_append length_replicate if_True nth_replicate toFloat32_zero)
qed

lemma flat_mesh:
  "topVerticesCount (createSkirtedPlaneGeometry 255 255 1) = 65536"
  "65536 \<le> length (positionZ (createSkirtedPlaneGeometry 255 255 1))"
  "k < 65536 \<Longrightarrow> positionZ (createSkirtedPlaneGeometry 255 255 1) ! k = 0"
  using createSkirtedPlaneGeometry_top(1) [of 255 255 1]
        createSkirtedPlaneGeometry_top(2) [of 255 255 1]
        createSkirtedPlaneGeometry_top(3) [of k 255 255 1]
  by simp_all

lemma installed_stitchExample: "installed stitchExample 2"
  using flat_mesh(1,2)
  by (auto simp: installed_def stitchExample_def setupScene_def MAX_GRID_RADIUS_def meshOK_def
        gridSize_def Let_def)

lemma stitchExample_values:
  "vertexZ stitchExample (0, 0) 65535 = 0"
  "vertexZ stitchExample (0, 1) 65280 = 0"
  "vertexZ stitchExample (1, 0) 255 = 4"
  "vertexZ stitchExample (0, 0) 511 = 1"
  "vertexZ stitchExample (0, 1) 256 = 8388609 / 8388608"
  using flat_mesh(2) flat_mesh(3) [of 65535] flat_mesh(3) [of 65280]
  by (simp_all add: vertexZ_def getZ_def stitchExample_def Let_def)

lemma float32_exponent_1: "float32_exponent 1 = 0" "float32_exponent (16777217 / 16777216) = 0"
  "float32_exponent 2 = 1" "float32_exponent 0 = - 126"
  by code_simp+

lemma toFloat32_examples:
  "toFloat32 2 = 2" "toFloat32 (16777217 / 16777216) = 1"
  by (simp_all add: toFloat32_def float32_exponent_1 round_half_even_def Let_def)

text \<open>
  C1 (as amended). After \<open>synchronizeTileBoundaries\<close> on a grid installed up to
  \<open>gridRadius\<close>, for every tile within the radius and every sample of a shared edge
  except its first and its last (the corners of the tile, which lie on two edges): the
  sample of the tile and the sample of its right neighbour are equal, and are the mean of
  the two values before the pass, rounded to single precision; likewise for the tile and
  its bottom neighbour.
\<close>

theorem synchronizeTileBoundaries_edges:
  assumes "installed (terrainGrid s) gridRadius"
    and "- gridRadius \<le> i" "i \<le> gridRadius" "- gridRadius \<le> j" "j \<le> gridRadius"
    and "0 < n" "n < gridSize - 1"
  shows "(j < gridRadius \<longrightarrow>
           vertexZ (terrainGrid (synchronizeTileBoundaries gridRadius s)) (i, j) (n * gridSize + (gridSize - 1))
             = vertexZ (terrainGrid (synchronizeTileBoundaries gridRadius s)) (i, j + 1) (n * gridSize)
         \<and> vertexZ (terrainGrid (synchronizeTileBoundaries gridRadius s)) (i, j) (n * gridSize + (gridSize - 1))
             = toFloat32 ((vertexZ (terrainGrid s) (i, j) (n * gridSize + (gridSize - 1))
                           + vertexZ (terrainGrid s) (i, j + 1) (n * gridSize)) / 2))
       \<and> (i < gridRadius \<longrightarrow>
           vertexZ (terrainGrid (synchronizeTileBoundaries gridRadius s)) (i, j) ((gridSize - 1) * gridSize + n)
             = vertexZ (terrainGrid (synchronizeTileBoundaries gridRadius s)) (i + 1, j) n
         \<and> vertexZ (terrainGrid (synchronizeTileBoundaries gridRadius s)) (i, j) ((gridSize - 1) * gridSize + n)
             = toFloat32 ((vertexZ (terrainGrid s) (i, j) ((gridSize - 1) * gridSize + n)
                           + vertexZ (terrainGrid s) (i + 1, j) n) / 2))"
proof -
  have n: "0 < n" "n < 255" using assms(6,7) by (simp_all add: gridSize_def)
  have right: ?thesis if "j < gridRadius" "\<not> i < gridRadius"
    using stitch_right_edge [OF assms(1,2,3,4) that(1) n] that
    by (simp add: synchronizeTileBoundaries_fold gridSize_def)
  have bottom: ?thesis if "\<not> j < gridRadius" "i < gridRadius"
    using stitch_bottom_edge [OF assms(1,2) that(2) assms(4,5) n] that
    by (simp add: synchronizeTileBoundaries_fold gridSize_def add.commute)
  have both: ?thesis if "j < gridRadius" "i < gridRadius"
    using stitch_right_edge [OF assms(1,2,3,4) that(1) n]
          stitch_bottom_edge [OF assms(1,2) that(2) assms(4,5) n] that
    by (simp add: synchronizeTileBoundaries_fold gridSize_def add.commute)
  show ?thesis
    using right bottom both by blast
qed

theorem synchronizeTileBoundaries_edges_witness:
  "installed (terrainGrid ((initialState 0)\<lparr>terrainGrid := stitchExample\<rparr>)) 2
   \<and> vertexZ (terrainGrid (synchronizeTileBoundaries 2 ((initialState 0)\<lparr>terrainGrid := stitchExample\<rparr>)))
       (0, 0) 511 = 1
   \<and> vertexZ (terrainGrid (synchronizeTileBoundaries 2 ((initialState 0)\<lparr>terrainGrid := stitchExample\<rparr>)))
       (0, 1) 256 = 1
   \<and> vertexZ (terrainGrid (synchronizeTileBoundaries 2 ((initialState 0)\<lparr>terrainGrid := stitchExample\<rparr>)))
       (0, 0) 65281 = 0
   \<and> vertexZ (terrainGrid (synchronizeTileBoundaries 2 ((initialState 0)\<lparr>terrainGrid := stitchExample\<rparr>)))
       (1, 0) 1 = 0"
proof -
  have i: "installed (terrainGrid ((initialState 0)\<lparr>terrainGrid := stitchExample\<rparr>)) 2"
    by (simp add: installed_stitchExample)
  have v: "vertexZ stitchExample (0, 0) 65281 = 0" "vertexZ stitchExample (1, 0) (Suc 0) = 0"
    using flat_mesh(2) flat_mesh(3) [of 65281] flat_mesh(3) [of 1]
    by (simp_all add: vertexZ_def getZ_def stitchExample_def Let_def)
  show ?thesis
    using synchronizeTileBoundaries_edges [OF i, of 0 0 1] i
    by (simp add: gridSize_def stitchExample_values v toFloat32_examples)
qed

text \<open>
  Against C1 as stated, on the example grid with \<open>gridRadius\<close> 2. The bottom right
  vertex of tile \<open>(0, 0)\<close> and the bottom left vertex of tile \<open>(0, 1)\<close> are both 0
  before the pass, and after it tile \<open>(0, 0)\<close> holds 2 there: the vertex is also on the
  edge shared with tile \<open>(1, 0)\<close>, whose value 4 enters it. In the second row the two
  tiles hold 1 and \<open>1 + 2^-23\<close>; their mean \<open>1 + 2^-24\<close> is not a single-precision
  number, and the buffer holds 1.
\<close>

theorem synchronizeTileBoundaries_counterexample:
  "vertexZ (terrainGrid (synchronizeTileBoundaries 2 ((initialState 0)\<lparr>terrainGrid := stitchExample\<rparr>)))
     (0, 0) 65535 = 2
   \<and> (vertexZ stitchExample (0, 0) 65535 + vertexZ stitchExample (0, 1) 65280) / 2 = 0
   \<and> vertexZ (terrainGrid (synchronizeTileBoundaries 2 ((initialState 0)\<lparr>terrainGrid := stitchExample\<rparr>)))
     (0, 0) 511 = 1
   \<and> (vertexZ stitchExample (0, 0) 511 + vertexZ stitchExample (0, 1) 256) / 2 = 16777217 / 16777216"
proof -
  have a: "vertexZ (fold (\<lambda>t. syncTile 2 (fst t) (snd t)) (List.product [- 2 .. 2] [- 2 .. 2]) stitchExample)
      (0, 0) 65535 = 2"
    using stitch_corner [OF installed_stitchExample, of 0 0]
    by (simp add: stitchExample_values toFloat32_examples)
  have b: "vertexZ (fold (\<lambda>t. syncTile 2 (fst t) (snd t)) (List.product [- 2 .. 2] [- 2 .. 2]) stitchExample)
      (0, 0) 511 = 1"
    using stitch_right_edge(1) [OF installed_stitchExample, of 0 0 1]
    by (simp add: stitchExample_values toFloat32_examples)
  show ?thesis
    using a b by (simp add: synchronizeTileBoundaries_fold stitchExample_values)
qed

section \<open>Occlusion on flat terrain\<close>

lemma sample_in_set: "sample hs k = Some h \<Longrightarrow> h \<in> set hs"
  by (auto simp: sample_def split: if_splits)

lemma getTerrainHeightAt_cases:
  "getTerrainHeightAt s worldX worldZ = MinusInfinity
   \<or> getTerrainHeightAt s worldX worldZ = Finite 0
   \<or> (\<exists>t td h11 h12 h21 h22 tx tz.
         map_of (terrainHeightData s) t = Some td \<and>
         h11 \<in> set (heights td) \<and> h12 \<in> set (heights td) \<and>
         h21 \<in> set (heights td) \<and> h22 \<in> set (heights td) \<and>
         getTerrainHeightAt s worldX worldZ
           = Finite ((h11 * (1 - tz) + h12 * tz) * (1 - tx) + (h21 * (1 - tz) + h22 * tz) * tx))"
proof (cases "outsideGrid s (tileOffset s worldX worldZ)")
  case True
  then show ?thesis
    by (simp add: getTerrainHeightAt_alt)
next
  case False
  show ?thesis
  proof (cases "map_of (terrainHeightData s) (tileOffset s worldX worldZ)")
    case None
    then show ?thesis
      using False by (simp add: getTerrainHeightAt_alt)
  next
    case (Some td)
    obtain gridX gridZ where c: "sampleCoords s td worldX worldZ = (gridX, gridZ)"
      by (cases "sampleCoords s td worldX worldZ")
    let ?w = "int (width td)"
    let ?s11 = "sample (heights td) (\<lfloor>gridZ\<rfloor> * ?w + \<lfloor>gridX\<rfloor>)"
    let ?s12 = "sample (heights td) (\<lceil>gridZ\<rceil> * ?w + \<lfloor>gridX\<rfloor>)"
    let ?s21 = "sample (heights td) (\<lfloor>gridZ\<rfloor> * ?w + \<lceil>gridX\<rceil>)"
    let ?s22 = "sample (heights td) (\<lceil>gridZ\<rceil> * ?w + \<lceil>gridX\<rceil>)"
    have eq: "getTerrainHeightAt s worldX worldZ =
        (if \<lfloor>gridX\<rfloor> < 0 \<or> \<lceil>gridX\<rceil> \<ge> ?w \<or> \<lfloor>gridZ\<rfloor> < 0 \<or> \<lceil>gridZ\<rceil> \<ge> int (height td)
         then Finite 0
         else case (?s11, ?s12, ?s21, ?s22) of
                  (Some h11, Some h12, Some h21, Some h22) \<Rightarrow>
                     Finite ((h11 * (1 - (gridZ - of_int \<lfloor>gridZ\<rfloor>)) + h12 * (gridZ - of_int \<lfloor>gridZ\<rfloor>))
                               * (1 - (gridX - of_int \<lfloor>gridX\<rfloor>))
                             + (h21 * (1 - (gridZ - of_int \<lfloor>gridZ\<rfloor>)) + h22 * (gridZ - of_int \<lfloor>gridZ\<rfloor>))
                               * (gridX - of_int \<lfloor>gridX\<rfloor>))
                | _ \<Rightarrow> Finite 0)"
      by (simp only: getTerrainHeightAt_alt False Some c if_False option.case Let_def fst_conv snd_conv)
    show ?thesis
    proof (cases "\<lfloor>gridX\<rfloor> < 0 \<or> \<lceil>gridX\<rceil> \<ge> ?w \<or> \<lfloor>gridZ\<rfloor> < 0 \<or> \<lceil>gridZ\<rceil> \<ge> int (height td)")
      case True
      then show ?thesis unfolding eq by simp
    next
      case guard: False
      show ?thesis
      proof (cases "\<exists>h11 h12 h21 h22. ?s11 = Some h11 \<and> ?s12 = Some h12 \<and> ?s21 = Some h21 \<and> ?s22 = Some h22")
        case True
        then obtain h11 h12 h21 h22 where
          h: "?s11 = Some h11" "?s12 = Some h12" "?s21 = Some h21" "?s22 = Some h22" by blast
        have "h11 \<in> set (heights td)" "h12 \<in> set (heights td)" "h21 \<in> set (heights td)"
             "h22 \<in> set (heights td)"
          using h by (auto dest: sample_in_set)
        moreover have "getTerrainHeightAt s worldX worldZ =
            Finite ((h11 * (1 - (gridZ - of_int \<lfloor>gridZ\<rfloor>)) + h12 * (gridZ - of_int \<lfloor>gridZ\<rfloor>))
                               * (1 - (gridX - of_int \<lfloor>gridX\<rfloor>))
                             + (h21 * (1 - (gridZ - of_int \<lfloor>gridZ\<rfloor>)) + h22 * (gridZ - of_int \<lfloor>gridZ\<rfloor>))
                               * (gridX - of_int \<lfloor>gridX\<rfloor>))"
          unfolding eq using guard h by simp
        ultimately show ?thesis using Some by blast
      next
        case False
        then have "getTerrainHeightAt s worldX worldZ = Finite 0"
          unfolding eq using guard by (auto split: option.splits)
        then show ?thesis by simp
      qed
    qed
  qed
qed

lemma flat_height:
  assumes "flatTerrain s"
  shows "getTerrainHeightAt s worldX worldZ = MinusInfinity \<or> getTerrainHeightAt s worldX worldZ = Finite 0"
proof -
  have z: "h = 0" if "map_of (terrainHeightData s) t = Some td" "h \<in> set (heights td)" for t td h
  proof -
    have "(t, td) \<in> set (terrainHeightData s)" using that(1) by (rule map_of_SomeD)
    then show ?thesis using assms that(2) by (auto simp: flatTerrain_def)
  qed
  from getTerrainHeightAt_cases [of s worldX worldZ] show ?thesis
  proof (elim disjE exE conjE)
    fix t td h11 h12 h21 h22 tx tz
    assume m: "map_of (terrainHeightData s) t = Some td"
      and h: "h11 \<in> set (heights td)" "h12 \<in> set (heights td)" "h21 \<in> set (heights td)" "h22 \<in> set (heights td)"
      and g: "getTerrainHeightAt s worldX worldZ
           = Finite ((h11 * (1 - tz) + h12 * tz) * (1 - tx) + (h21 * (1 - tz) + h22 * tz) * tx)"
    have "h11 = 0" "h12 = 0" "h21 = 0" "h22 = 0" using z [OF m] h by simp_all
    then show ?thesis using g by simp
  qed simp_all
qed

lemma flat_height_inside:
  assumes "flatTerrain s" "\<not> outsideGrid s (tileOffset s worldX worldZ)"
  shows "getTerrainHeightAt s worldX worldZ = Finite 0"
proof -
  have "getTerrainHeightAt s worldX worldZ \<noteq> MinusInfinity"
    using assms(2)
    by (simp add: getTerrainHeightAt_alt Let_def split: option.splits)
  then show ?thesis using flat_height [OF assms(1)] by blast
qed

lemma rayMarch_unfold:
  "i < numSteps \<Longrightarrow>
   rayMarch s sunPosition rayDirection numSteps i =
     (if (case getTerrainHeightAt s (vec_x (rayPoint sunPosition rayDirection i))
                 (vec_z (rayPoint sunPosition rayDirection i)) of
            Finite terrainHeight \<Rightarrow> vec_y (rayPoint sunPosition rayDirection i) < terrainHeight
          | MinusInfinity \<Rightarrow> False)
      then (case fineProbe s (rayPoint sunPosition rayDirection (i - 1)) (rayPoint sunPosition rayDirection i) 0.1 of
              Some result \<Rightarrow> result
            | None \<Rightarrow> rayMarch s sunPosition rayDirection numSteps (i + 1))
      else rayMarch s sunPosition rayDirection numSteps (i + 1))"
  by (subst rayMarch.simps)
     (simp add: Let_def rayPoint_def cong: if_cong number.case_cong option.case_cong)

lemma rayMarch_stop:
  "\<not> i < numSteps \<Longrightarrow> rayMarch s sunPosition rayDirection numSteps i = \<lparr>isLit = True, intersectionPoint = None\<rparr>"
  by (subst rayMarch.simps) simp

lemma rayMarch_clear:
  assumes "flatTerrain s"
    and "\<And>k. i \<le> k \<Longrightarrow> k < numSteps \<Longrightarrow> 0 \<le> vec_y (rayPoint sunPosition rayDirection k)"
  shows "rayMarch s sunPosition rayDirection numSteps i = \<lparr>isLit = True, intersectionPoint = None\<rparr>"
  using assms(2)
proof (induction "nat (numSteps - i)" arbitrary: i)
  case 0
  then show ?case by (simp add: rayMarch_stop)
next
  case (Suc n)
  then have i: "i < numSteps" and n: "n = nat (numSteps - (i + 1))" by auto
  have y: "0 \<le> vec_y (rayPoint sunPosition rayDirection i)"
    using Suc.prems [of i] i by simp
  have nb: "\<not> (case getTerrainHeightAt s (vec_x (rayPoint sunPosition rayDirection i))
                 (vec_z (rayPoint sunPosition rayDirection i)) of
            Finite terrainHeight \<Rightarrow> vec_y (rayPoint sunPosition rayDirection i) < terrainHeight
          | MinusInfinity \<Rightarrow> False)"
    using flat_height [OF assms(1), of "vec_x (rayPoint sunPosition rayDirection i)"
        "vec_z (rayPoint sunPosition rayDirection i)"] y
    by auto
  have "rayMarch s sunPosition rayDirection numSteps (i + 1) = \<lparr>isLit = True, intersectionPoint = None\<rparr>"
    by (rule Suc.hyps(1) [OF n]) (use Suc.prems in auto)
  then show ?case
    using nb by (simp add: rayMarch_unfold [OF i])
qed

lemma fineProbe_first:
  assumes "getTerrainHeightAt s (vec_x (lerp prevPos currentPos (1 / 10))) (vec_z (lerp prevPos currentPos (1 / 10))) = Finite h"
    and "vec_y (lerp prevPos currentPos (1 / 10)) < h"
  shows "\<exists>p. fineProbe s prevPos currentPos (1 / 10) = Some \<lparr>isLit = False, intersectionPoint = Some p\<rparr>"
  using assms by (subst fineProbe.simps) (simp add: Let_def)

lemma rayMarch_blocked:
  assumes "flatTerrain s" "i < numSteps"
    and "\<not> outsideGrid s (tileOffset s (vec_x (rayPoint sunPosition rayDirection i)) (vec_z (rayPoint sunPosition rayDirection i)))"
    and "vec_y (rayPoint sunPosition rayDirection i) < 0"
    and "\<not> outsideGrid s (tileOffset s
            (vec_x (lerp (rayPoint sunPosition rayDirection (i - 1)) (rayPoint sunPosition rayDirection i) (1 / 10)))
            (vec_z (lerp (rayPoint sunPosition rayDirection (i - 1)) (rayPoint sunPosition rayDirection i) (1 / 10))))"
    and "vec_y (lerp (rayPoint sunPosition rayDirection (i - 1)) (rayPoint sunPosition rayDirection i) (1 / 10)) < 0"
  shows "\<not> isLit (rayMarch s sunPosition rayDirection numSteps i)"
proof -
  have h1: "getTerrainHeightAt s (vec_x (rayPoint sunPosition rayDirection i)) (vec_z (rayPoint sunPosition rayDirection i)) = Finite 0"
    by (rule flat_height_inside [OF assms(1,3)])
  have h2: "getTerrainHeightAt s
            (vec_x (lerp (rayPoint sunPosition rayDirection (i - 1)) (rayPoint sunPosition rayDirection i) (1 / 10)))
            (vec_z (lerp (rayPoint sunPosition rayDirection (i - 1)) (rayPoint sunPosition rayDirection i) (1 / 10))) = Finite 0"
    by (rule flat_height_inside [OF assms(1,5)])
  obtain p where "fineProbe s (rayPoint sunPosition rayDirection (i - 1)) (rayPoint sunPosition rayDirection i) (1 / 10)
      = Some \<lparr>isLit = False, intersectionPoint = Some p\<rparr>"
    using fineProbe_first [OF h2 assms(6)] by blast
  then show ?thesis
    using h1 assms(4) by (simp add: rayMarch_unfold [OF assms(2)])
qed

lemma grid_covers_radius:
  assumes "mapZoom s \<in> {12, 13, 14, 15}"
  shows "10 < of_int (getGridRadiusForZoom (mapZoom s)) * getTileWorldSizeForZoom (mapZoom s)"
  using assms
  by (auto simp: getGridRadiusForZoom_def getTileWorldSizeForZoom_def TILE_BASE_SIZE_def TILE_BASE_ZOOM_def)

lemma inside_near:
  assumes z: "mapZoom s \<in> {12, 13, 14, 15}"
    and p: "\<bar>terrainGrid_position_x s\<bar> \<le> getTileWorldSizeForZoom (mapZoom s) / 2"
           "\<bar>terrainGrid_position_z s\<bar> \<le> getTileWorldSizeForZoom (mapZoom s) / 2"
    and x: "\<bar>worldX\<bar> \<le> 10" "\<bar>worldZ\<bar> \<le> 10"
  shows "\<not> outsideGrid s (tileOffset s worldX worldZ)"
proof -
  let ?ws = "getTileWorldSizeForZoom (mapZoom s)"
  let ?r = "real_of_int (getGridRadiusForZoom (mapZoom s))"
  have c: "10 < ?r * ?ws" by (rule grid_covers_radius [OF z])
  have h: "(?r + 1/2) * ?ws = ?r * ?ws + ?ws / 2" by (simp add: algebra_simps)
  show ?thesis
    unfolding outsideGrid_footprint Let_def h using c p x by linarith
qed

lemma isLocationSunlit_march:
  assumes "terrainHeightData s \<noteq> []"
    and "\<not> (vec_y (getSunPosition e s date 10) < vec_y (locationMarker_position s) - 5 \<and>
            altitude (SunCalc_getPosition e date (lat (currentLocation s)) (lon (currentLocation s))) < 0)"
  shows "isLocationSunlit e s date =
     rayMarch s (getSunPosition e s date 10)
       (vec_normalize (vec_sub (locationMarker_position s) (getSunPosition e s date 10)))
       \<lfloor>vec_length (vec_sub (locationMarker_position s) (getSunPosition e s date 10)) / 2\<rfloor> 1"
  using assms by (auto simp: isLocationSunlit_def Let_def)

lemma rayPoint_coords:
  assumes "vec_length (vec_sub T S) \<noteq> 0"
  shows "vec_x (rayPoint S (vec_normalize (vec_sub T S)) k)
           = vec_x S + (vec_x T - vec_x S) * (2 * of_int k / vec_length (vec_sub T S))"
    and "vec_y (rayPoint S (vec_normalize (vec_sub T S)) k)
           = vec_y S + (vec_y T - vec_y S) * (2 * of_int k / vec_length (vec_sub T S))"
    and "vec_z (rayPoint S (vec_normalize (vec_sub T S)) k)
           = vec_z S + (vec_z T - vec_z S) * (2 * of_int k / vec_length (vec_sub T S))"
  using assms
  by (simp_all add: rayPoint_def vec_normalize_def vec_add_def multiplyScalar_def vec_sub_def)

lemma rayPoint_zero: "rayPoint S d 0 = S"
  by (cases S) (simp add: rayPoint_def vec_add_def multiplyScalar_def)

lemma flat_lit:
  assumes flat: "flatTerrain s"
    and sy: "0 \<le> vec_y (getSunPosition e s date 10)"
    and ty: "0 \<le> vec_y (locationMarker_position s)"
    and alt: "\<not> altitude (SunCalc_getPosition e date (lat (currentLocation s)) (lon (currentLocation s))) < 0"
  shows "isLocationSunlit e s date = \<lparr>isLit = True, intersectionPoint = None\<rparr>"
proof (cases "terrainHeightData s = []")
  case True
  then show ?thesis by (simp add: isLocationSunlit_def)
next
  case False
  let ?S = "getSunPosition e s date 10" and ?T = "locationMarker_position s"
  let ?L = "vec_length (vec_sub ?T ?S)"
  have "rayMarch s ?S (vec_normalize (vec_sub ?T ?S)) \<lfloor>?L / 2\<rfloor> 1 = \<lparr>isLit = True, intersectionPoint = None\<rparr>"
  proof (rule rayMarch_clear [OF flat])
    fix k :: int
    assume k: "1 \<le> k" "k < \<lfloor>?L / 2\<rfloor>"
    then have "of_int k + 1 \<le> ?L / 2" by linarith
    then have L: "2 * of_int k < ?L" "0 < ?L" using k by linarith+
    define t where "t = 2 * of_int k / ?L"
    have t: "0 \<le> t" "t \<le> 1" using L k by (simp_all add: t_def)
    have "vec_y (rayPoint ?S (vec_normalize (vec_sub ?T ?S)) k) = vec_y ?S + (vec_y ?T - vec_y ?S) * t"
      using L by (simp add: rayPoint_coords t_def)
    also have "\<dots> = vec_y ?S * (1 - t) + vec_y ?T * t" by (simp add: algebra_simps)
    also have "0 \<le> \<dots>" using sy ty t by simp
    finally show "0 \<le> vec_y (rayPoint ?S (vec_normalize (vec_sub ?T ?S)) k)" by simp
  qed
  then show ?thesis
    using False alt by (simp add: isLocationSunlit_march)
qed

lemma flat_lit_points:
  assumes flat: "flatTerrain s"
    and early: "\<not> (vec_y (getSunPosition e s date 10) < vec_y (locationMarker_position s) - 5 \<and>
            altitude (SunCalc_getPosition e date (lat (currentLocation s)) (lon (currentLocation s))) < 0)"
    and pts: "\<And>k. 1 \<le> k \<Longrightarrow>
        k < \<lfloor>vec_length (vec_sub (locationMarker_position s) (getSunPosition e s date 10)) / 2\<rfloor> \<Longrightarrow>
        0 \<le> vec_y (rayPoint (getSunPosition e s date 10)
                (vec_normalize (vec_sub (locationMarker_position s) (getSunPosition e s date 10))) k)"
  shows "isLocationSunlit e s date = \<lparr>isLit = True, intersectionPoint = None\<rparr>"
proof (cases "terrainHeightData s = []")
  case True
  then show ?thesis by (simp add: isLocationSunlit_def)
next
  case False
  show ?thesis
    unfolding isLocationSunlit_march [OF False early]
    by (rule rayMarch_clear [OF flat]) (rule pts)
qed

lemma circle_scale:
  fixes c sn cs :: real
  assumes "sn\<^sup>2 + cs\<^sup>2 = 1"
  shows "(10 * c * sn)\<^sup>2 + (10 * c * cs)\<^sup>2 = 100 * c\<^sup>2"
proof -
  have "(10 * c * sn)\<^sup>2 + (10 * c * cs)\<^sup>2 = 100 * c\<^sup>2 * (sn\<^sup>2 + cs\<^sup>2)"
    by (simp add: power2_eq_square algebra_simps)
  then show ?thesis using assms by simp
qed

lemma circle_shift:
  fixes h sn cs :: real
  assumes "sn\<^sup>2 + cs\<^sup>2 = 1"
  shows "100 * cs\<^sup>2 + (h - 10 * sn)\<^sup>2 = 100 + h\<^sup>2 - 2 * h * (10 * sn)"
proof -
  have "100 * cs\<^sup>2 + (h - 10 * sn)\<^sup>2 = 100 * (sn\<^sup>2 + cs\<^sup>2) + h\<^sup>2 - 2 * h * (10 * sn)"
    by (simp add: power2_eq_square algebra_simps)
  then show ?thesis using assms by simp
qed

lemma sun_coords:
  fixes e s date
  defines "a \<equiv> altitude (SunCalc_getPosition e date (lat (currentLocation s)) (lon (currentLocation s)))"
  shows "vec_y (getSunPosition e s date 10) = 10 * sin a"
    and "(vec_x (getSunPosition e s date 10))\<^sup>2 + (vec_z (getSunPosition e s date 10))\<^sup>2 = 100 * (cos a)\<^sup>2"
    and "\<bar>vec_x (getSunPosition e s date 10)\<bar> \<le> 10"
    and "\<bar>vec_z (getSunPosition e s date 10)\<bar> \<le> 10"
proof -
  let ?az = "azimuth (SunCalc_getPosition e date (lat (currentLocation s)) (lon (currentLocation s))) + pi"
  have x: "vec_x (getSunPosition e s date 10) = 10 * cos a * sin ?az"
    and z: "vec_z (getSunPosition e s date 10) = 10 * cos a * cos ?az"
    by (simp_all add: getSunPosition_def Let_def a_def)
  show "vec_y (getSunPosition e s date 10) = 10 * sin a"
    by (simp add: getSunPosition_def Let_def a_def)
  show "(vec_x (getSunPosition e s date 10))\<^sup>2 + (vec_z (getSunPosition e s date 10))\<^sup>2 = 100 * (cos a)\<^sup>2"
    unfolding x z by (rule circle_scale) (rule sin_cos_squared_add)
  have c: "\<bar>cos a\<bar> \<le> 1" "\<bar>sin ?az\<bar> \<le> 1" "\<bar>cos ?az\<bar> \<le> 1" by simp_all
  have "\<bar>cos a * sin ?az\<bar> \<le> 1 * 1"
    unfolding abs_mult by (rule mult_mono) (use c in simp_all)
  then show "\<bar>vec_x (getSunPosition e s date 10)\<bar> \<le> 10"
    unfolding x by (simp add: abs_mult)
  have "\<bar>cos a * cos ?az\<bar> \<le> 1 * 1"
    unfolding abs_mult by (rule mult_mono) (use c in simp_all)
  then show "\<bar>vec_z (getSunPosition e s date 10)\<bar> \<le> 10"
    unfolding z by (simp add: abs_mult)
qed

lemma ray_length_sq:
  assumes "locationMarker_position s = Vector3 0 h 0"
  shows "(vec_length (vec_sub (locationMarker_position s) (getSunPosition e s date 10)))\<^sup>2
     = 100 + h\<^sup>2 - 2 * h * vec_y (getSunPosition e s date 10)"
proof -
  let ?S = "getSunPosition e s date 10"
  let ?a = "altitude (SunCalc_getPosition e date (lat (currentLocation s)) (lon (currentLocation s)))"
  have "(vec_length (vec_sub (locationMarker_position s) ?S))\<^sup>2
      = (vec_x ?S)\<^sup>2 + (h - vec_y ?S)\<^sup>2 + (vec_z ?S)\<^sup>2"
    unfolding vec_length_def vec_sub_def assms
    by (simp add: power2_eq_square)
  also have "\<dots> = ((vec_x ?S)\<^sup>2 + (vec_z ?S)\<^sup>2) + (h - 10 * sin ?a)\<^sup>2"
    by (simp add: sun_coords(1))
  also have "\<dots> = 100 * (cos ?a)\<^sup>2 + (h - 10 * sin ?a)\<^sup>2"
    by (simp only: sun_coords(2))
  also have "\<dots> = 100 + h\<^sup>2 - 2 * h * (10 * sin ?a)"
    by (rule circle_shift) (rule sin_cos_squared_add)
  also have "\<dots> = 100 + h\<^sup>2 - 2 * h * vec_y ?S"
    by (simp only: sun_coords(1))
  finally show ?thesis .
qed

lemma vec_length_nonneg: "0 \<le> vec_length v"
  unfolding vec_length_def by (rule real_sqrt_ge_zero) (simp add: add_nonneg_nonneg)

lemma shrink_abs:
  fixes x t :: real
  assumes "\<bar>x\<bar> \<le> 10" "0 \<le> t" "t \<le> 1"
  shows "\<bar>x + (0 - x) * t\<bar> \<le> 10"
proof -
  have "x + (0 - x) * t = x * (1 - t)" by (simp add: algebra_simps)
  moreover have "\<bar>x * (1 - t)\<bar> \<le> 10 * 1"
    unfolding abs_mult by (rule mult_mono) (use assms in simp_all)
  ultimately show ?thesis by simp
qed

lemma tenth_neg:
  fixes p y :: real
  assumes "p < 0" "y < 0"
  shows "y + (p - y) / 10 < 0"
proof -
  have eq: "y + (p - y) / 10 = (9 * y + p) / 10" by (simp add: field_simps)
  have "9 * y + p < 0" using assms by simp
  then have "(9 * y + p) / 10 < 0" by simp
  then show ?thesis unfolding eq .
qed

lemma flat_occluded:
  assumes flat: "flatTerrain s" and ne: "terrainHeightData s \<noteq> []"
    and T: "locationMarker_position s = Vector3 0 h 0" and h0: "0 \<le> h"
    and sy: "vec_y (getSunPosition e s date 10) < 0"
    and syh: "vec_y (getSunPosition e s date 10) \<le> - h"
    and zoom: "mapZoom s \<in> {12, 13, 14, 15}"
    and pos: "\<bar>terrainGrid_position_x s\<bar> \<le> getTileWorldSizeForZoom (mapZoom s) / 2"
             "\<bar>terrainGrid_position_z s\<bar> \<le> getTileWorldSizeForZoom (mapZoom s) / 2"
  shows "\<not> isLit (isLocationSunlit e s date)"
proof (cases "vec_y (getSunPosition e s date 10) < vec_y (locationMarker_position s) - 5 \<and>
            altitude (SunCalc_getPosition e date (lat (currentLocation s)) (lon (currentLocation s))) < 0")
  case True
  then show ?thesis using ne by (simp add: isLocationSunlit_def Let_def)
next
  case False
  let ?S = "getSunPosition e s date 10" and ?T = "locationMarker_position s"
  let ?d = "vec_normalize (vec_sub ?T ?S)"
  define L where "L = vec_length (vec_sub ?T ?S)"
  define y0 where "y0 = vec_y ?S"
  have Tc: "vec_x ?T = 0" "vec_y ?T = h" "vec_z ?T = 0" by (simp_all add: T)
  have "L\<^sup>2 = 100 + h\<^sup>2 - 2 * h * y0"
    unfolding L_def y0_def by (rule ray_length_sq [OF T])
  moreover have "0 \<le> h * (- y0)" using h0 sy by (intro mult_nonneg_nonneg) (simp_all add: y0_def)
  moreover have "0 \<le> h\<^sup>2" by simp
  ultimately have "10\<^sup>2 \<le> L\<^sup>2" by (simp only: power2_eq_square)
  moreover have L0: "0 \<le> L" unfolding L_def by (rule vec_length_nonneg)
  ultimately have L10: "10 \<le> L" by (rule power2_le_imp_le)
  then have Lne: "vec_length (vec_sub ?T ?S) \<noteq> 0" by (simp add: L_def)
  have steps: "1 < \<lfloor>L / 2\<rfloor>" using L10 by (simp add: less_floor_iff)
  define t where "t = 2 / L"
  have t: "0 < t" "t \<le> 1 / 5" using L10 by (simp_all add: t_def field_simps)
  have t1: "2 * of_int 1 / vec_length (vec_sub ?T ?S) = t" by (simp add: t_def L_def)
  note P = rayPoint_coords [OF Lne, of 1, unfolded t1 Tc]
  have y0': "y0 < 0" "y0 \<le> - h" using sy syh by (simp_all add: y0_def)
  have py: "vec_y (rayPoint ?S ?d 1) < 0"
  proof -
    have "h * t \<le> (- y0) * t" using y0' t by (intro mult_right_mono) simp_all
    then have "y0 + (h - y0) * t \<le> y0 * (1 - 2 * t)" by (simp add: algebra_simps)
    also have "\<dots> < 0" using y0' t by (intro mult_neg_pos) simp_all
    finally show ?thesis unfolding P y0_def .
  qed
  have px: "\<bar>vec_x (rayPoint ?S ?d 1)\<bar> \<le> 10"
    unfolding P by (rule shrink_abs [OF sun_coords(3)]) (use t in simp_all)
  have pz: "\<bar>vec_z (rayPoint ?S ?d 1)\<bar> \<le> 10"
    unfolding P by (rule shrink_abs [OF sun_coords(4)]) (use t in simp_all)
  have in1: "\<not> outsideGrid s (tileOffset s (vec_x (rayPoint ?S ?d 1)) (vec_z (rayPoint ?S ?d 1)))"
    by (rule inside_near [OF zoom pos px pz])
  let ?f = "lerp (rayPoint ?S ?d (1 - 1)) (rayPoint ?S ?d 1) (1 / 10)"
  have f2: "vec_y ?f = y0 + (vec_y (rayPoint ?S ?d 1) - y0) / 10"
    by (simp add: lerp_def rayPoint_zero y0_def)
  have f: "vec_x ?f = vec_x ?S + (0 - vec_x ?S) * (t / 10)"
          "vec_z ?f = vec_z ?S + (0 - vec_z ?S) * (t / 10)"
    by (simp_all add: lerp_def rayPoint_zero P)
  have fy: "vec_y ?f < 0" unfolding f2 by (rule tenth_neg [OF py y0'(1)])
  have fx: "\<bar>vec_x ?f\<bar> \<le> 10"
    unfolding f by (rule shrink_abs [OF sun_coords(3)]) (use t in simp_all)
  have fz: "\<bar>vec_z ?f\<bar> \<le> 10"
    unfolding f by (rule shrink_abs [OF sun_coords(4)]) (use t in simp_all)
  have in2: "\<not> outsideGrid s (tileOffset s (vec_x ?f) (vec_z ?f))"
    by (rule inside_near [OF zoom pos fx fz])
  have "\<not> isLit (rayMarch s ?S ?d \<lfloor>L / 2\<rfloor> 1)"
    by (rule rayMarch_blocked [OF flat steps in1 py in2 fy])
  then show ?thesis
    unfolding isLocationSunlit_march [OF ne False] L_def .
qed

lemma flatExample_fields:
  "mapZoom flatExample = 13"
  "terrainGrid_position_x flatExample = 0"
  "terrainGrid_position_z flatExample = 0"
  "locationMarker_position flatExample = Vector3 0 (1 / 100) 0"
  "terrainHeightData flatExample \<noteq> []"
  by (simp_all add: flatExample_def initialState_def)

lemma flatTerrain_flatExample: "flatTerrain flatExample"
  by (simp add: flatTerrain_def flatExample_def)

lemma fixedSun_altitude [simp]:
  "altitude (SunCalc_getPosition (fixedSun a az) date la lo) = a"
  by (simp add: fixedSun_def)

text \<open>
  C4. With a flat heightfield loaded (every sample of every tile is 0, and there is at
  least one tile) and the marker on it, at \<open>(0, 0, 0)\<close>, in a grid of zoom 12 to 15
  whose position is within half a tile of the origin, as \<open>updateTerrain\<close> leaves it:
  for every date, \<open>isLocationSunlit\<close> returns lit when the altitude of the ephemeris is
  above 0 and occluded when it is below 0. (An altitude is an angle between \<open>-\<pi>\<close> and
  \<open>\<pi>\<close>.)
\<close>

theorem isLocationSunlit_flat:
  assumes "flatTerrain s" and "terrainHeightData s \<noteq> []"
    and "locationMarker_position s = Vector3 0 0 0"
    and "mapZoom s \<in> {12, 13, 14, 15}"
    and "\<bar>terrainGrid_position_x s\<bar> \<le> getTileWorldSizeForZoom (mapZoom s) / 2"
    and "\<bar>terrainGrid_position_z s\<bar> \<le> getTileWorldSizeForZoom (mapZoom s) / 2"
    and "altitude (SunCalc_getPosition e date (lat (currentLocation s)) (lon (currentLocation s))) = a"
    and "- pi < a" and "a < pi"
  shows "(0 < a \<longrightarrow> isLit (isLocationSunlit e s date))
       \<and> (a < 0 \<longrightarrow> \<not> isLit (isLocationSunlit e s date))"
proof (intro conjI impI)
  assume h: "0 < a"
  then have "0 < sin a" using assms(9) by (simp add: sin_gt_zero)
  then have "0 \<le> vec_y (getSunPosition e s date 10)"
    using sun_coords(1) [of e s date] assms(7) by simp
  moreover have "\<not> altitude (SunCalc_getPosition e date (lat (currentLocation s)) (lon (currentLocation s))) < 0"
    using h assms(7) by simp
  ultimately show "isLit (isLocationSunlit e s date)"
    using flat_lit [OF assms(1), of e date] assms(3) by simp
next
  assume h: "a < 0"
  have "0 < sin (- a)" using h assms(8) by (intro sin_gt_zero) simp_all
  then have neg: "sin a < 0" by simp
  have y: "vec_y (getSunPosition e s date 10) = 10 * sin a"
    using sun_coords(1) [of e s date] assms(7) by simp
  show "\<not> isLit (isLocationSunlit e s date)"
    by (rule flat_occluded [OF assms(1,2,3) _ _ _ assms(4,5,6)]) (use neg y in simp_all)
qed

lemma groundExample_fields:
  "flatTerrain groundExample"
  "terrainHeightData groundExample \<noteq> []"
  "locationMarker_position groundExample = Vector3 0 0 0"
  "mapZoom groundExample \<in> {12, 13, 14, 15}"
  "\<bar>terrainGrid_position_x groundExample\<bar> \<le> getTileWorldSizeForZoom (mapZoom groundExample) / 2"
  "\<bar>terrainGrid_position_z groundExample\<bar> \<le> getTileWorldSizeForZoom (mapZoom groundExample) / 2"
  by (simp_all add: groundExample_def flatTerrain_def flatExample_def initialState_def
      getTileWorldSizeForZoom_def TILE_BASE_SIZE_def TILE_BASE_ZOOM_def)

theorem isLocationSunlit_flat_witness:
  "flatTerrain groundExample \<and> terrainHeightData groundExample \<noteq> []
   \<and> locationMarker_position groundExample = Vector3 0 0 0
   \<and> mapZoom groundExample \<in> {12, 13, 14, 15}
   \<and> \<bar>terrainGrid_position_x groundExample\<bar> \<le> getTileWorldSizeForZoom (mapZoom groundExample) / 2
   \<and> \<bar>terrainGrid_position_z groundExample\<bar> \<le> getTileWorldSizeForZoom (mapZoom groundExample) / 2
   \<and> - pi < pi / 2 \<and> pi / 2 < pi \<and> (0::real) < pi / 2
   \<and> isLit (isLocationSunlit (fixedSun (pi / 2) 0) groundExample 0)
   \<and> - pi < - (pi / 2) \<and> - (pi / 2) < pi \<and> - (pi / 2) < (0::real)
   \<and> \<not> isLit (isLocationSunlit (fixedSun (- (pi / 2)) 0) groundExample 0)"
proof -
  have p: "- pi < pi / 2" "pi / 2 < pi" "(0::real) < pi / 2"
    "- pi < - (pi / 2)" "- (pi / 2) < pi" "- (pi / 2) < (0::real)"
    using pi_gt_zero by linarith+
  have "isLit (isLocationSunlit (fixedSun (pi / 2) 0) groundExample 0)"
    using isLocationSunlit_flat [OF groundExample_fields _ p(1,2), of "fixedSun (pi / 2) 0" 0] p(3)
    by simp
  moreover have "\<not> isLit (isLocationSunlit (fixedSun (- (pi / 2)) 0) groundExample 0)"
    using isLocationSunlit_flat [OF groundExample_fields _ p(4,5), of "fixedSun (- (pi / 2)) 0" 0] p(6)
    by simp
  ultimately show ?thesis using groundExample_fields p by blast
qed

text \<open>
  A remark on the height of the marker. \<open>updateTerrain\<close> sets the marker 0.01 above the
  height it reads at the centre. With the marker there, and not on the terrain, the sun at
  altitude \<open>-0.0001\<close> is reported lit: every sample point of the ray is above 0.
\<close>

lemma isLocationSunlit_raised_marker:
  "flatTerrain flatExample
   \<and> altitude (SunCalc_getPosition (fixedSun (- (1 / 10000)) 0) 0
        (lat (currentLocation flatExample)) (lon (currentLocation flatExample))) < 0
   \<and> isLit (isLocationSunlit (fixedSun (- (1 / 10000)) 0) flatExample 0)"
proof -
  let ?e = "fixedSun (- (1 / 10000)) 0"
  let ?S = "getSunPosition ?e flatExample 0 10" and ?T = "locationMarker_position flatExample"
  define L where "L = vec_length (vec_sub ?T ?S)"
  define u where "u = - vec_y ?S"
  have "\<bar>sin (- (1 / 10000 :: real))\<bar> \<le> \<bar>- (1 / 10000 :: real)\<bar>" by (rule abs_sin_x_le_abs_x)
  then have s1: "- (1 / 10000) \<le> sin (- (1 / 10000 :: real))" by simp
  have "0 < sin (1 / 10000 :: real)"
    using pi_ge_two by (intro sin_gt_zero) simp_all
  then have s2: "sin (- (1 / 10000 :: real)) < 0" by simp
  have y: "vec_y ?S = 10 * sin (- (1 / 10000))"
    using sun_coords(1) [of ?e flatExample 0] by simp
  have u: "0 < u" "u \<le> 1 / 1000" using s1 s2 by (simp_all add: u_def y)
  have Ty: "vec_y ?T = 1 / 100" by (simp add: flatExample_fields)
  have early: "\<not> (vec_y ?S < vec_y ?T - 5 \<and>
      altitude (SunCalc_getPosition ?e 0 (lat (currentLocation flatExample)) (lon (currentLocation flatExample))) < 0)"
    using u by (simp add: Ty u_def)
  have "L\<^sup>2 = 100 + (1 / 100)\<^sup>2 - 2 * (1 / 100) * vec_y ?S"
    unfolding L_def by (rule ray_length_sq) (simp add: flatExample_fields)
  then have "L\<^sup>2 = 100 + 1 / 10000 + u / 50" by (simp add: u_def power2_eq_square)
  then have "L\<^sup>2 \<le> 11\<^sup>2" using u by simp
  then have L11: "L \<le> 11" by (rule power2_le_imp_le) simp
  have pts: "0 \<le> vec_y (rayPoint ?S (vec_normalize (vec_sub ?T ?S)) k)"
    if k: "1 \<le> k" "k < \<lfloor>vec_length (vec_sub ?T ?S) / 2\<rfloor>" for k
  proof -
    have "of_int k + 1 \<le> L / 2" using k unfolding L_def by linarith
    then have L0: "0 < L" using k by linarith
    then have Lne: "vec_length (vec_sub ?T ?S) \<noteq> 0" by (simp add: L_def)
    define t where "t = 2 * of_int k / L"
    have "2 / 11 \<le> 2 * 1 / L" using L0 L11 by (simp add: field_simps)
    also have "\<dots> \<le> t" unfolding t_def using k L0 by (intro divide_right_mono) simp_all
    finally have t: "2 / 11 \<le> t" .
    have "vec_y (rayPoint ?S (vec_normalize (vec_sub ?T ?S)) k) = vec_y ?S + (vec_y ?T - vec_y ?S) * t"
      using rayPoint_coords(2) [OF Lne, of k] by (simp add: t_def L_def)
    also have "\<dots> = (1 / 100 + u) * t - u" by (simp add: Ty u_def)
    finally have eq: "vec_y (rayPoint ?S (vec_normalize (vec_sub ?T ?S)) k) = (1 / 100 + u) * t - u" .
    have "(1 / 100 + u) * (2 / 11) \<le> (1 / 100 + u) * t"
      using t u by (intro mult_left_mono) simp_all
    moreover have "u \<le> (1 / 100 + u) * (2 / 11)" using u by simp
    ultimately show ?thesis unfolding eq by simp
  qed
  have "isLocationSunlit ?e flatExample 0 = \<lparr>isLit = True, intersectionPoint = None\<rparr>"
    by (rule flat_lit_points [OF flatTerrain_flatExample early]) (rule pts)
  then show ?thesis
    using flatTerrain_flatExample by simp
qed

section \<open>The occlusion test on the store\<close>

text \<open>
  The occlusion test on the store returns what the test on values returns, and leaves every
  vector that was in the store before the call where it was, with the coordinates it had:
  each vector it changes is a \<open>clone()\<close> or a vector made in the call.
\<close>

lemma preserves_refl [simp]: "preserves h h"
  by (simp add: preserves_def)

lemma preserves_trans: "preserves h h1 \<Longrightarrow> preserves h1 h2 \<Longrightarrow> preserves h h2"
  by (auto simp: preserves_def)

lemma preserves_append [simp]: "preserves h (h @ xs)"
  by (simp add: preserves_def nth_append)

lemma fineProbe_unfold:
  "j \<le> 1 \<Longrightarrow>
   fineProbe s prevPos currentPos j =
     (case getTerrainHeightAt s (vec_x (lerp prevPos currentPos j)) (vec_z (lerp prevPos currentPos j)) of
        Finite h \<Rightarrow>
          if vec_y (lerp prevPos currentPos j) < h
          then Some \<lparr>isLit = False,
                 intersectionPoint = Some (Vector3 (vec_x (lerp prevPos currentPos j)) h (vec_z (lerp prevPos currentPos j)))\<rparr>
          else fineProbe s prevPos currentPos (j + 0.2)
      | MinusInfinity \<Rightarrow> fineProbe s prevPos currentPos (j + 0.2))"
  by (subst fineProbe.simps) (simp add: Let_def cong: number.case_cong)

lemma fineProbe_stop: "\<not> j \<le> 1 \<Longrightarrow> fineProbe s prevPos currentPos j = None"
  by (subst fineProbe.simps) simp

lemma fineProbe_store_unfold:
  assumes "j \<le> 1" "p < length h" "c < length h"
  shows "fineProbe_store s p c j h =
     (case getTerrainHeightAt s (vec_x (lerp (h ! p) (h ! c) j)) (vec_z (lerp (h ! p) (h ! c) j)) of
        Finite th \<Rightarrow>
          if vec_y (lerp (h ! p) (h ! c) j) < th
          then (Some \<lparr>isLitRef = False, intersectionPointRef = Some (length h)\<rparr>,
                h @ [Vector3 (vec_x (lerp (h ! p) (h ! c) j)) th (vec_z (lerp (h ! p) (h ! c) j))])
          else fineProbe_store s p c (j + 0.2) (h @ [lerp (h ! p) (h ! c) j])
      | MinusInfinity \<Rightarrow> fineProbe_store s p c (j + 0.2) (h @ [lerp (h ! p) (h ! c) j]))"
proof -
  have h2: "V3_lerp (length h) c j (h @ [h ! p]) = h @ [lerp (h ! p) (h ! c) j]"
    using assms by (simp add: V3_lerp_def nth_append)
  have sy: "V3_setY (length h) th (h @ [v]) = h @ [Vector3 (vec_x v) th (vec_z v)]" for th v
    by (simp add: V3_setY_def)
  show ?thesis
    using assms(1)
    by (subst fineProbe_store.simps)
       (simp add: V3_clone_def h2 sy Let_def cong: number.case_cong if_cong)
qed

lemma fineProbe_store_stop: "\<not> j \<le> 1 \<Longrightarrow> fineProbe_store s p c j h = (None, h)"
  by (subst fineProbe_store.simps) simp

lemma probe_measure:
  fixes j :: real
  assumes "j \<le> 1"
  shows "nat \<lceil>(1 - (j + 0.2)) * 5 + 1\<rceil> < nat \<lceil>(1 - j) * 5 + 1\<rceil>"
proof -
  define x where "x = (1 - j) * 5"
  have x: "0 \<le> x" using assms by (simp add: x_def)
  have e: "(1 - (j + 0.2)) * 5 + 1 = x" by (simp add: x_def algebra_simps)
  have "0 \<le> \<lceil>x\<rceil>" using x by (simp add: le_ceiling_iff)
  then have "nat \<lceil>x\<rceil> < nat (\<lceil>x\<rceil> + 1)" by simp
  then show ?thesis unfolding e x_def [symmetric] by (simp only: ceiling_add_one)
qed

lemma fineProbe_store_refines:
  assumes "p < length h" "c < length h"
  shows "preserves h (snd (fineProbe_store s p c j h))
       \<and> (case fst (fineProbe_store s p c j h) of
            None \<Rightarrow> fineProbe s (h ! p) (h ! c) j = None
          | Some r \<Rightarrow> fineProbe s (h ! p) (h ! c) j = Some (resultOf (r, snd (fineProbe_store s p c j h))))"
  using assms
proof (induction "nat \<lceil>(1 - j) * 5 + 1\<rceil>" arbitrary: j h rule: less_induct)
  case less
  show ?case
  proof (cases "j \<le> 1")
    case False
    then show ?thesis by (simp add: fineProbe_store_stop fineProbe_stop)
  next
    case True
    let ?fp = "lerp (h ! p) (h ! c) j"
    let ?h2 = "h @ [?fp]"
    define R where "R = fineProbe_store s p c (j + 0.2) ?h2"
    define F where "F = fineProbe s (h ! p) (h ! c) (j + 0.2)"
    have pc: "p < length ?h2" "c < length ?h2" using less.prems by simp_all
    have same: "?h2 ! p = h ! p" "?h2 ! c = h ! c" using less.prems by (simp_all add: nth_append)
    have IH: "preserves ?h2 (snd R)
       \<and> (case fst R of None \<Rightarrow> F = None | Some r \<Rightarrow> F = Some (resultOf (r, snd R)))"
      unfolding R_def F_def
      using less.hyps [OF probe_measure [OF True] pc] unfolding same .
    have rec: "preserves h (snd R)"
      using IH preserves_trans [OF preserves_append [of h "[?fp]"]] by blast
    have su: "fineProbe_store s p c j h =
       (case getTerrainHeightAt s (vec_x ?fp) (vec_z ?fp) of
          Finite th \<Rightarrow>
            if vec_y ?fp < th
            then (Some \<lparr>isLitRef = False, intersectionPointRef = Some (length h)\<rparr>,
                  h @ [Vector3 (vec_x ?fp) th (vec_z ?fp)])
            else R
        | MinusInfinity \<Rightarrow> R)"
      unfolding R_def by (rule fineProbe_store_unfold [OF True less.prems])
    have pu: "fineProbe s (h ! p) (h ! c) j =
       (case getTerrainHeightAt s (vec_x ?fp) (vec_z ?fp) of
          Finite th \<Rightarrow>
            if vec_y ?fp < th
            then Some \<lparr>isLit = False, intersectionPoint = Some (Vector3 (vec_x ?fp) th (vec_z ?fp))\<rparr>
            else F
        | MinusInfinity \<Rightarrow> F)"
      unfolding F_def by (rule fineProbe_unfold [OF True])
    show ?thesis
    proof (cases "getTerrainHeightAt s (vec_x ?fp) (vec_z ?fp)")
      case MinusInfinity
      have "fineProbe_store s p c j h = R" "fineProbe s (h ! p) (h ! c) j = F"
        unfolding su pu MinusInfinity by simp_all
      then show ?thesis using IH rec by (simp split: option.splits)
    next
      case (Finite th)
      show ?thesis
      proof (cases "vec_y ?fp < th")
        case hit: True
        have "fineProbe_store s p c j h =
                (Some \<lparr>isLitRef = False, intersectionPointRef = Some (length h)\<rparr>,
                 h @ [Vector3 (vec_x ?fp) th (vec_z ?fp)])"
             "fineProbe s (h ! p) (h ! c) j =
                Some \<lparr>isLit = False, intersectionPoint = Some (Vector3 (vec_x ?fp) th (vec_z ?fp))\<rparr>"
          unfolding su pu Finite using hit by simp_all
        then show ?thesis by (simp add: resultOf_def)
      next
        case False
        have "fineProbe_store s p c j h = R" "fineProbe s (h ! p) (h ! c) j = F"
          unfolding su pu Finite using False by simp_all
        then show ?thesis using IH rec by (simp split: option.splits)
      qed
    qed
  qed
qed

lemma preserves_nth: "preserves h h' \<Longrightarrow> a < length h \<Longrightarrow> h' ! a = h ! a \<and> a < length h'"
  by (auto simp: preserves_def)

lemma clone_add_scaled:
  assumes "sun < length h" "dir < length h"
  shows "V3_add (length h) (Suc (length h))
           (V3_multiplyScalar (Suc (length h)) k (h @ [h ! sun, h ! dir])) =
         h @ [vec_add (h ! sun) (multiplyScalar (h ! dir) k), multiplyScalar (h ! dir) k]"
  using assms
  by (simp add: V3_add_def V3_multiplyScalar_def nth_append list_update_append)

lemma rayMarch_store_unfold:
  assumes "i < numSteps" "sun < length h" "dir < length h"
  shows "rayMarch_store s sun dir numSteps i h =
     (if (case getTerrainHeightAt s (vec_x (rayPoint (h ! sun) (h ! dir) i))
                 (vec_z (rayPoint (h ! sun) (h ! dir) i)) of
            Finite terrainHeight \<Rightarrow> vec_y (rayPoint (h ! sun) (h ! dir) i) < terrainHeight
          | MinusInfinity \<Rightarrow> False)
      then (case fineProbe_store s (length h + 2) (length h) 0.1
                   (h @ [rayPoint (h ! sun) (h ! dir) i, multiplyScalar (h ! dir) (of_int i * 2),
                         rayPoint (h ! sun) (h ! dir) (i - 1),
                         multiplyScalar (h ! dir) (of_int (i - 1) * 2)]) of
              (Some result, h9) \<Rightarrow> (result, h9)
            | (None, h9) \<Rightarrow> rayMarch_store s sun dir numSteps (i + 1) h9)
      else rayMarch_store s sun dir numSteps (i + 1)
             (h @ [rayPoint (h ! sun) (h ! dir) i, multiplyScalar (h ! dir) (of_int i * 2)]))"
proof -
  let ?h4 = "h @ [rayPoint (h ! sun) (h ! dir) i, multiplyScalar (h ! dir) (of_int i * 2)]"
  have a: "V3_add (length h) (Suc (length h))
             (V3_multiplyScalar (Suc (length h)) (of_int i * 2) (h @ [h ! sun, h ! dir])) = ?h4"
    using clone_add_scaled [OF assms(2,3)] by (simp add: rayPoint_def)
  have sd: "sun < length ?h4" "dir < length ?h4" "?h4 ! sun = h ! sun" "?h4 ! dir = h ! dir"
    using assms(2,3) by (simp_all add: nth_append)
  have b: "V3_add (length ?h4) (Suc (length ?h4))
             (V3_multiplyScalar (Suc (length ?h4)) (of_int (i - 1) * 2) (?h4 @ [h ! sun, h ! dir])) =
           ?h4 @ [rayPoint (h ! sun) (h ! dir) (i - 1), multiplyScalar (h ! dir) (of_int (i - 1) * 2)]"
    using clone_add_scaled [OF sd(1,2), of "of_int (i - 1) * 2"] unfolding sd(3,4)
    by (simp add: rayPoint_def)
  have c1: "V3_clone dir (h @ [h ! sun]) = (Suc (length h), h @ [h ! sun, h ! dir])"
    using assms(3) by (simp add: V3_clone_def nth_append)
  have c2: "V3_clone sun ?h4 = (length ?h4, ?h4 @ [h ! sun])"
    using assms(2) by (simp add: V3_clone_def nth_append)
  have c3: "V3_clone dir (?h4 @ [h ! sun]) = (Suc (length ?h4), ?h4 @ [h ! sun, h ! dir])"
    using assms(3) by (simp add: V3_clone_def nth_append)
  have n4: "?h4 ! length h = rayPoint (h ! sun) (h ! dir) i" by simp
  have l4: "length ?h4 = length h + 2" by simp
  show ?thesis
    apply (subst rayMarch_store.simps)
    apply (simp only: assms(1) if_True Let_def V3_clone_def [of sun h] split_conv c1 a n4)
    apply (simp only: c2 c3 split_conv b)
    apply (simp only: l4 append_assoc append_Cons append_Nil)
    done
qed

lemma rayMarch_store_stop:
  "\<not> i < numSteps \<Longrightarrow>
   rayMarch_store s sun dir numSteps i h = (\<lparr>isLitRef = True, intersectionPointRef = None\<rparr>, h)"
  by (subst rayMarch_store.simps) simp

lemma rayMarch_store_refines:
  assumes "sun < length h" "dir < length h"
  shows "preserves h (snd (rayMarch_store s sun dir numSteps i h))
       \<and> resultOf (rayMarch_store s sun dir numSteps i h) = rayMarch s (h ! sun) (h ! dir) numSteps i"
  using assms
proof (induction "nat (numSteps - i)" arbitrary: i h)
  case 0
  then have "\<not> i < numSteps" by simp
  then show ?case by (simp add: rayMarch_store_stop rayMarch_stop resultOf_def)
next
  case (Suc n)
  then have i: "i < numSteps" and n: "n = nat (numSteps - (i + 1))" by simp_all
  let ?cur = "rayPoint (h ! sun) (h ! dir) i"
  let ?prev = "rayPoint (h ! sun) (h ! dir) (i - 1)"
  let ?h4 = "h @ [?cur, multiplyScalar (h ! dir) (of_int i * 2)]"
  let ?h8 = "h @ [?cur, multiplyScalar (h ! dir) (of_int i * 2), ?prev,
                  multiplyScalar (h ! dir) (of_int (i - 1) * 2)]"
  define blocked where "blocked =
     (case getTerrainHeightAt s (vec_x ?cur) (vec_z ?cur) of
        Finite terrainHeight \<Rightarrow> vec_y ?cur < terrainHeight
      | MinusInfinity \<Rightarrow> False)"
  define P where "P = fineProbe_store s (length h + 2) (length h) 0.1 ?h8"
  define F where "F = fineProbe s ?prev ?cur 0.1"
  define M where "M = rayMarch s (h ! sun) (h ! dir) numSteps (i + 1)"
  have su: "rayMarch_store s sun dir numSteps i h =
     (if blocked
      then (case P of (Some result, h9) \<Rightarrow> (result, h9)
                    | (None, h9) \<Rightarrow> rayMarch_store s sun dir numSteps (i + 1) h9)
      else rayMarch_store s sun dir numSteps (i + 1) ?h4)"
    unfolding blocked_def P_def by (rule rayMarch_store_unfold [OF i Suc.prems])
  have pu: "rayMarch s (h ! sun) (h ! dir) numSteps i =
     (if blocked then (case F of Some result \<Rightarrow> result | None \<Rightarrow> M) else M)"
    unfolding blocked_def F_def M_def by (rule rayMarch_unfold [OF i])
  have IH: "preserves h h' \<Longrightarrow>
       preserves h (snd (rayMarch_store s sun dir numSteps (i + 1) h'))
     \<and> resultOf (rayMarch_store s sun dir numSteps (i + 1) h') = M" for h'
  proof -
    assume p: "preserves h h'"
    note a = preserves_nth [OF p Suc.prems(1)] preserves_nth [OF p Suc.prems(2)]
    have "preserves h' (snd (rayMarch_store s sun dir numSteps (i + 1) h'))
        \<and> resultOf (rayMarch_store s sun dir numSteps (i + 1) h') =
            rayMarch s (h' ! sun) (h' ! dir) numSteps (i + 1)"
      using a by (intro Suc.hyps(1) [OF n]) simp_all
    then show ?thesis
      using a preserves_trans [OF p] by (simp add: M_def)
  qed
  show ?case
  proof (cases blocked)
    case False
    have "rayMarch_store s sun dir numSteps i h = rayMarch_store s sun dir numSteps (i + 1) ?h4"
         "rayMarch s (h ! sun) (h ! dir) numSteps i = M"
      unfolding su pu using False by simp_all
    then show ?thesis using IH [of ?h4] by simp
  next
    case True
    have pc: "length h + 2 < length ?h8" "length h < length ?h8" by simp_all
    have nth8: "?h8 ! (length h + 2) = ?prev" "?h8 ! length h = ?cur"
      by (simp_all add: nth_append)
    have fp: "preserves ?h8 (snd P)
       \<and> (case fst P of None \<Rightarrow> F = None | Some r \<Rightarrow> F = Some (resultOf (r, snd P)))"
      unfolding P_def F_def
      using fineProbe_store_refines [OF pc, of s "0.1"] unfolding nth8 .
    have p8: "preserves h (snd P)"
      using fp preserves_trans [OF preserves_append [of h]] by blast
    show ?thesis
    proof (cases "fst P")
      case None
      then have P: "P = (None, snd P)" by (cases P) simp
      have F: "F = None" using fp None by simp
      have "rayMarch_store s sun dir numSteps i h = rayMarch_store s sun dir numSteps (i + 1) (snd P)"
        unfolding su using True by (subst P) simp
      moreover have "rayMarch s (h ! sun) (h ! dir) numSteps i = M"
        unfolding pu using True F by simp
      ultimately show ?thesis using IH [OF p8] by simp
    next
      case (Some r)
      then have P: "P = (Some r, snd P)" by (cases P) simp
      have F: "F = Some (resultOf (r, snd P))" using fp Some by simp
      have "rayMarch_store s sun dir numSteps i h = (r, snd P)"
        unfolding su using True by (subst P) simp
      moreover have "rayMarch s (h ! sun) (h ! dir) numSteps i = resultOf (r, snd P)"
        unfolding pu using True F by simp
      ultimately show ?thesis using p8 by simp
    qed
  qed
qed

lemma isLocationSunlit_store_refines:
  assumes "markerAt < length h" "h ! markerAt = locationMarker_position s"
  shows "preserves h (snd (isLocationSunlit_store e s markerAt date h))
       \<and> resultOf (isLocationSunlit_store e s markerAt date h) = isLocationSunlit e s date"
proof (cases "terrainHeightData s = []")
  case True
  then show ?thesis by (simp add: isLocationSunlit_store_def isLocationSunlit_def resultOf_def)
next
  case False
  let ?sun = "getSunPosition e s date 10"
  let ?m = "locationMarker_position s"
  let ?h1 = "h @ [?sun]"
  let ?h4 = "h @ [?sun, vec_normalize (vec_sub ?m ?sun)]"
  define early where "early \<longleftrightarrow> vec_y ?sun < vec_y ?m - 5 \<and>
     altitude (SunCalc_getPosition e date (lat (currentLocation s)) (lon (currentLocation s))) < 0"
  define n where "n = \<lfloor>vec_length (vec_sub ?m ?sun) / 2\<rfloor>"
  have su: "isLocationSunlit_store e s markerAt date h =
     (if early then (\<lparr>isLitRef = False, intersectionPointRef = None\<rparr>, ?h1)
      else rayMarch_store s (length h) (Suc (length h)) n 1 ?h4)"
    using False assms
    by (simp add: isLocationSunlit_store_def early_def n_def Let_def V3_new_def V3_clone_def
        V3_sub_def V3_normalize_def nth_append list_update_append)
  have pu: "isLocationSunlit e s date =
     (if early then \<lparr>isLit = False, intersectionPoint = None\<rparr>
      else rayMarch s ?sun (vec_normalize (vec_sub ?m ?sun)) n 1)"
    using False by (simp add: isLocationSunlit_def early_def n_def Let_def)
  show ?thesis
  proof (cases early)
    case True
    then show ?thesis unfolding su pu by (simp add: resultOf_def)
  next
    case False
    have l: "length h < length ?h4" "Suc (length h) < length ?h4" by simp_all
    have nth4: "?h4 ! length h = ?sun" "?h4 ! Suc (length h) = vec_normalize (vec_sub ?m ?sun)"
      by (simp_all add: nth_append)
    note r = rayMarch_store_refines [OF l, of s n 1, unfolded nth4]
    have "preserves h (snd (rayMarch_store s (length h) (Suc (length h)) n 1 ?h4))"
      using r preserves_trans [OF preserves_append [of h]] by blast
    then show ?thesis unfolding su pu using False r by simp
  qed
qed

lemma getTerrainHeightAt_inputs:
  assumes "terrainHeightData s' = terrainHeightData s"
    and "terrainGrid_position_x s' = terrainGrid_position_x s"
    and "terrainGrid_position_z s' = terrainGrid_position_z s"
    and "mapZoom s' = mapZoom s"
  shows "getTerrainHeightAt s' = getTerrainHeightAt s"
  by (rule ext, rule ext) (simp only: getTerrainHeightAt_def assms)

lemma zoomExample_fields:
  "mapZoom (zoomExample zoom) = zoom"
  "terrainGrid_position_x (zoomExample zoom) = 0"
  "terrainGrid_position_z (zoomExample zoom) = 0"
  "locationMarker_position (zoomExample zoom) = Vector3 0 (15 / 2) 0"
  "terrainHeightData (zoomExample zoom) = [((0, 0), \<lparr>heights = replicate 65536 2, width = 256, height = 256\<rparr>)]"
  "currentLocation (zoomExample zoom) = \<lparr>lat = -37.755, lon = 145.697\<rparr>"
  by (simp_all add: zoomExample_def initialState_def)

lemma zoomExample_sun: "getSunPosition (fixedSun 0 0) (zoomExample zoom) 0 10 = Vector3 0 0 (- 10)"
  by (simp add: getSunPosition_def fixedSun_def Let_def)

lemma zoomExample_length: "vec_length (Vector3 0 (15 / 2) 10) = 25 / 2"
proof -
  have "sqrt ((25 / 2 :: real)\<^sup>2) = \<bar>25 / 2\<bar>" by (rule real_sqrt_abs)
  then have "sqrt ((25 / 2 :: real)\<^sup>2) = 25 / 2" by simp
  moreover have "(0::real) * 0 + 15 / 2 * (15 / 2) + 10 * 10 = (25 / 2)\<^sup>2"
    by (simp add: power2_eq_square)
  ultimately show ?thesis by (simp only: vec_length_def Vector3.sel)
qed

lemma zoomExample_dir:
  "vec_normalize (vec_sub (Vector3 0 (15 / 2) 0) (Vector3 0 0 (- 10))) = Vector3 0 (3 / 5) (4 / 5)"
proof -
  have s: "vec_sub (Vector3 0 (15 / 2) 0) (Vector3 0 0 (- 10)) = Vector3 0 (15 / 2) 10"
    by (simp add: vec_sub_def)
  show ?thesis
    unfolding s vec_normalize_def zoomExample_length by (simp add: multiplyScalar_def)
qed

lemma zoomExample_point:
  "rayPoint (Vector3 0 0 (- 10)) (Vector3 0 (3 / 5) (4 / 5)) i =
     Vector3 0 (6 / 5 * of_int i) (8 / 5 * of_int i - 10)"
  by (simp add: rayPoint_def vec_add_def multiplyScalar_def)

lemma zoomExample_height_13:
  "getTerrainHeightAt (zoomExample 13) 0 (- (42 / 5)) = Finite 0"
  "getTerrainHeightAt (zoomExample 13) 0 (- (34 / 5)) = Finite 0"
  "getTerrainHeightAt (zoomExample 13) 0 (- (26 / 5)) = Finite 0"
  "getTerrainHeightAt (zoomExample 13) 0 (- (18 / 5)) = Finite 2"
  "getTerrainHeightAt (zoomExample 13) 0 (- 2) = Finite 2"
  by (simp_all add: getTerrainHeightAt_def zoomExample_fields getTileWorldSizeForZoom_def
      getGridRadiusForZoom_def TILE_BASE_SIZE_def TILE_BASE_ZOOM_def round_def sample_def Let_def)

lemma zoomExample_height_12:
  "getTerrainHeightAt (zoomExample 12) 0 (- (42 / 5)) = Finite 2"
  "getTerrainHeightAt (zoomExample 12) 0 (- (246 / 25)) = Finite 2"
  by (simp_all add: getTerrainHeightAt_def zoomExample_fields getTileWorldSizeForZoom_def
      getGridRadiusForZoom_def TILE_BASE_SIZE_def TILE_BASE_ZOOM_def round_def sample_def Let_def)

lemma zoomExample_march:
  "isLocationSunlit (fixedSun 0 0) (zoomExample zoom) 0 =
     rayMarch (zoomExample zoom) (Vector3 0 0 (- 10)) (Vector3 0 (3 / 5) (4 / 5)) 6 1"
proof -
  have l: "vec_length (vec_sub (Vector3 0 (15 / 2) 0) (Vector3 0 0 (- 10))) = 25 / 2"
    using zoomExample_length by (simp add: vec_sub_def)
  have "isLocationSunlit (fixedSun 0 0) (zoomExample zoom) 0 =
     rayMarch (zoomExample zoom) (getSunPosition (fixedSun 0 0) (zoomExample zoom) 0 10)
       (vec_normalize (vec_sub (locationMarker_position (zoomExample zoom))
          (getSunPosition (fixedSun 0 0) (zoomExample zoom) 0 10)))
       \<lfloor>vec_length (vec_sub (locationMarker_position (zoomExample zoom))
          (getSunPosition (fixedSun 0 0) (zoomExample zoom) 0 10)) / 2\<rfloor> 1"
    by (rule isLocationSunlit_march) (simp_all add: zoomExample_fields)
  then show ?thesis
    unfolding zoomExample_sun zoomExample_fields(4) zoomExample_dir l by simp
qed

lemma zoomExample_13:
  "isLocationSunlit (fixedSun 0 0) (zoomExample 13) 0 = \<lparr>isLit = True, intersectionPoint = None\<rparr>"
proof -
  let ?m = "rayMarch (zoomExample 13) (Vector3 0 0 (- 10)) (Vector3 0 (3 / 5) (4 / 5)) 6"
  have "?m 6 = \<lparr>isLit = True, intersectionPoint = None\<rparr>" by (simp add: rayMarch_stop)
  then have "?m 5 = \<lparr>isLit = True, intersectionPoint = None\<rparr>"
    by (simp add: rayMarch_unfold [of 5] zoomExample_point zoomExample_height_13)
  then have "?m 4 = \<lparr>isLit = True, intersectionPoint = None\<rparr>"
    by (simp add: rayMarch_unfold [of 4] zoomExample_point zoomExample_height_13)
  then have "?m 3 = \<lparr>isLit = True, intersectionPoint = None\<rparr>"
    by (simp add: rayMarch_unfold [of 3] zoomExample_point zoomExample_height_13)
  then have "?m 2 = \<lparr>isLit = True, intersectionPoint = None\<rparr>"
    by (simp add: rayMarch_unfold [of 2] zoomExample_point zoomExample_height_13)
  then have "?m 1 = \<lparr>isLit = True, intersectionPoint = None\<rparr>"
    by (simp add: rayMarch_unfold [of 1] zoomExample_point zoomExample_height_13)
  then show ?thesis by (simp only: zoomExample_march)
qed

lemma zoomExample_12:
  "isLocationSunlit (fixedSun 0 0) (zoomExample 12) 0 =
     \<lparr>isLit = False, intersectionPoint = Some (Vector3 0 2 (- (246 / 25)))\<rparr>"
proof -
  have "fineProbe (zoomExample 12) (Vector3 0 0 (- 10)) (Vector3 0 (6 / 5) (- (42 / 5))) (1 / 10) =
          Some \<lparr>isLit = False, intersectionPoint = Some (Vector3 0 2 (- (246 / 25)))\<rparr>"
    by (subst fineProbe_unfold) (simp_all add: lerp_def zoomExample_height_12)
  then have "rayMarch (zoomExample 12) (Vector3 0 0 (- 10)) (Vector3 0 (3 / 5) (4 / 5)) 6 1 =
          \<lparr>isLit = False, intersectionPoint = Some (Vector3 0 2 (- (246 / 25)))\<rparr>"
    by (simp add: rayMarch_unfold [of 1] zoomExample_point zoomExample_height_12)
  then show ?thesis by (simp only: zoomExample_march)
qed

text \<open>
  C8 (as amended). The occlusion test is a function of its inputs, and changes none of
  them. Take two
  states with the same tracked location, the same \<open>terrainHeightData\<close>, the same grid
  position, the same marker position and the same zoom level, whatever their other fields,
  and two stores, each with the marker position at some address. Then, for the same date
  and the same ephemeris: the call on the store returns the result of
  \<open>isLocationSunlit\<close> (the model has no assignment to a global, as the source has
  none); every vector of the store before the call, the marker position among them, is
  unchanged after it; the call in the second state and store returns the same result; and
  so does a call made in the second state on the store that the first call leaves.
\<close>

theorem isLocationSunlit_deterministic:
  assumes "currentLocation s' = currentLocation s"
    and "terrainHeightData s' = terrainHeightData s"
    and "terrainGrid_position_x s' = terrainGrid_position_x s"
    and "terrainGrid_position_z s' = terrainGrid_position_z s"
    and "locationMarker_position s' = locationMarker_position s"
    and "mapZoom s' = mapZoom s"
    and "markerAt < length h" and "h ! markerAt = locationMarker_position s"
    and "markerAt' < length h'" and "h' ! markerAt' = locationMarker_position s'"
  shows "resultOf (isLocationSunlit_store e s markerAt date h) = isLocationSunlit e s date
       \<and> preserves h (snd (isLocationSunlit_store e s markerAt date h))
       \<and> resultOf (isLocationSunlit_store e s' markerAt' date h') =
           resultOf (isLocationSunlit_store e s markerAt date h)
       \<and> resultOf (isLocationSunlit_store e s' markerAt date
             (snd (isLocationSunlit_store e s markerAt date h))) =
           resultOf (isLocationSunlit_store e s markerAt date h)"
proof -
  let ?h1 = "snd (isLocationSunlit_store e s markerAt date h)"
  note r = isLocationSunlit_store_refines [OF assms(7,8), of e date]
  have same: "isLocationSunlit e s' date = isLocationSunlit e s date"
    by (rule isLocationSunlit_cong)
       (simp_all add: getTerrainHeightAt_inputs [OF assms(2,3,4,6)] assms)
  have r': "resultOf (isLocationSunlit_store e s' markerAt' date h') = isLocationSunlit e s' date"
    using isLocationSunlit_store_refines [OF assms(9,10)] by blast
  have m: "markerAt < length ?h1" "?h1 ! markerAt = locationMarker_position s'"
    using preserves_nth [of h ?h1 markerAt] r assms(5,7,8) by simp_all
  have r'': "resultOf (isLocationSunlit_store e s' markerAt date ?h1) = isLocationSunlit e s' date"
    using isLocationSunlit_store_refines [OF m] by blast
  show ?thesis using r r' r'' same by simp
qed

text \<open>
  An instance: the example at zoom 13 and the same state with another selected date, the
  marker position alone in the first store and second in the second store.
\<close>

theorem isLocationSunlit_deterministic_witness:
  "currentLocation ((zoomExample 13)\<lparr>selectedDate := 5\<rparr>) = currentLocation (zoomExample 13)
   \<and> terrainHeightData ((zoomExample 13)\<lparr>selectedDate := 5\<rparr>) = terrainHeightData (zoomExample 13)
   \<and> terrainGrid_position_x ((zoomExample 13)\<lparr>selectedDate := 5\<rparr>) = terrainGrid_position_x (zoomExample 13)
   \<and> terrainGrid_position_z ((zoomExample 13)\<lparr>selectedDate := 5\<rparr>) = terrainGrid_position_z (zoomExample 13)
   \<and> locationMarker_position ((zoomExample 13)\<lparr>selectedDate := 5\<rparr>) = locationMarker_position (zoomExample 13)
   \<and> mapZoom ((zoomExample 13)\<lparr>selectedDate := 5\<rparr>) = mapZoom (zoomExample 13)
   \<and> (0::nat) < length [Vector3 0 (15 / 2) 0]
   \<and> [Vector3 0 (15 / 2) 0] ! 0 = locationMarker_position (zoomExample 13)
   \<and> (1::nat) < length [Vector3 1 1 1, Vector3 0 (15 / 2) 0]
   \<and> [Vector3 1 1 1, Vector3 0 (15 / 2) 0] ! 1 = locationMarker_position ((zoomExample 13)\<lparr>selectedDate := 5\<rparr>)
   \<and> resultOf (isLocationSunlit_store (fixedSun 0 0) (zoomExample 13) 0 0 [Vector3 0 (15 / 2) 0]) =
       isLocationSunlit (fixedSun 0 0) (zoomExample 13) 0
   \<and> preserves [Vector3 0 (15 / 2) 0]
       (snd (isLocationSunlit_store (fixedSun 0 0) (zoomExample 13) 0 0 [Vector3 0 (15 / 2) 0]))
   \<and> resultOf (isLocationSunlit_store (fixedSun 0 0) ((zoomExample 13)\<lparr>selectedDate := 5\<rparr>) 1 0
         [Vector3 1 1 1, Vector3 0 (15 / 2) 0]) =
       resultOf (isLocationSunlit_store (fixedSun 0 0) (zoomExample 13) 0 0 [Vector3 0 (15 / 2) 0])
   \<and> resultOf (isLocationSunlit_store (fixedSun 0 0) ((zoomExample 13)\<lparr>selectedDate := 5\<rparr>) 0 0
         (snd (isLocationSunlit_store (fixedSun 0 0) (zoomExample 13) 0 0 [Vector3 0 (15 / 2) 0]))) =
       resultOf (isLocationSunlit_store (fixedSun 0 0) (zoomExample 13) 0 0 [Vector3 0 (15 / 2) 0])"
proof -
  have f: "locationMarker_position (zoomExample 13) = Vector3 0 (15 / 2) 0"
    by (rule zoomExample_fields)
  have h: "(0::nat) < length [Vector3 0 (15 / 2) 0]"
    "[Vector3 0 (15 / 2) 0] ! 0 = locationMarker_position (zoomExample 13)"
    "(1::nat) < length [Vector3 1 1 1, Vector3 0 (15 / 2) 0]"
    "[Vector3 1 1 1, Vector3 0 (15 / 2) 0] ! 1 = locationMarker_position ((zoomExample 13)\<lparr>selectedDate := 5\<rparr>)"
    by (simp_all add: f)
  note t = isLocationSunlit_deterministic [of "(zoomExample 13)\<lparr>selectedDate := 5\<rparr>" "zoomExample 13"
      0 "[Vector3 0 (15 / 2) 0]" 1 "[Vector3 1 1 1, Vector3 0 (15 / 2) 0]" "fixedSun 0 0" 0,
      OF _ _ _ _ _ _ h]
  have "resultOf (isLocationSunlit_store (fixedSun 0 0) (zoomExample 13) 0 0 [Vector3 0 (15 / 2) 0]) =
       isLocationSunlit (fixedSun 0 0) (zoomExample 13) 0
   \<and> preserves [Vector3 0 (15 / 2) 0]
       (snd (isLocationSunlit_store (fixedSun 0 0) (zoomExample 13) 0 0 [Vector3 0 (15 / 2) 0]))
   \<and> resultOf (isLocationSunlit_store (fixedSun 0 0) ((zoomExample 13)\<lparr>selectedDate := 5\<rparr>) 1 0
         [Vector3 1 1 1, Vector3 0 (15 / 2) 0]) =
       resultOf (isLocationSunlit_store (fixedSun 0 0) (zoomExample 13) 0 0 [Vector3 0 (15 / 2) 0])
   \<and> resultOf (isLocationSunlit_store (fixedSun 0 0) ((zoomExample 13)\<lparr>selectedDate := 5\<rparr>) 0 0
         (snd (isLocationSunlit_store (fixedSun 0 0) (zoomExample 13) 0 0 [Vector3 0 (15 / 2) 0]))) =
       resultOf (isLocationSunlit_store (fixedSun 0 0) (zoomExample 13) 0 0 [Vector3 0 (15 / 2) 0])"
    by (rule t) simp_all
  then show ?thesis using h by simp
qed

text \<open>
  Against C8 as stated, which does not ask for the same zoom level: the examples at zoom 12
  and at zoom 13 have the same tracked location, \<open>terrainHeightData\<close>, grid position
  and marker position, and with the sun on the horizon at \<open>(0, 0, -10)\<close> the test
  returns occluded at zoom 12, where the first sample point \<open>(0, 1.2, -8.4)\<close> is on
  the tile of height 2, and lit at zoom 13, where the tile is 10 wide and the sample points
  over it are at heights 4.8 and 6.
\<close>

theorem isLocationSunlit_zoom_counterexample:
  "currentLocation (zoomExample 12) = currentLocation (zoomExample 13)
   \<and> terrainHeightData (zoomExample 12) = terrainHeightData (zoomExample 13)
   \<and> terrainGrid_position_x (zoomExample 12) = terrainGrid_position_x (zoomExample 13)
   \<and> terrainGrid_position_z (zoomExample 12) = terrainGrid_position_z (zoomExample 13)
   \<and> locationMarker_position (zoomExample 12) = locationMarker_position (zoomExample 13)
   \<and> isLocationSunlit (fixedSun 0 0) (zoomExample 13) 0 = \<lparr>isLit = True, intersectionPoint = None\<rparr>
   \<and> isLocationSunlit (fixedSun 0 0) (zoomExample 12) 0 =
       \<lparr>isLit = False, intersectionPoint = Some (Vector3 0 2 (- (246 / 25)))\<rparr>"
  by (simp add: zoomExample_12 zoomExample_13 zoomExample_fields)

end
